theory Spec2Isabelle
  imports Main
begin

section \<open>Errors and their classification\<close>

text \<open>
  Go's \<^verbatim>\<open>error\<close> values, as far as \<^verbatim>\<open>auto_reconn.go\<close> tells them apart.
  A nil error is \<open>None :: error option\<close>.
  \<^item> \<open>EOF\<close> is the value \<^verbatim>\<open>io.EOF\<close>; the source compares with \<^verbatim>\<open>==\<close>, so an error
    that wraps \<^verbatim>\<open>io.EOF\<close> is a different value.
  \<^item> \<open>ErrClosedManually\<close> is the package variable of that name.
  \<^item> \<open>Net ne\<close> is an error that implements \<^verbatim>\<open>net.Error\<close>; \<open>Temporary ne\<close> is what its
    \<^verbatim>\<open>Temporary()\<close> method answers.
  \<^item> \<open>PlainError k\<close> is any other error with no \<^verbatim>\<open>Unwrap\<close> method.
  \<^item> \<open>Wrapped k e\<close> is an error that is not a \<^verbatim>\<open>net.Error\<close> itself and whose
    \<^verbatim>\<open>Unwrap()\<close> gives \<open>e\<close>.
\<close>

datatype net_error = NetErr (Temporary: bool) (tag: nat)

datatype error =
    EOF
  | ErrClosedManually
  | Net net_error
  | PlainError nat
  | Wrapped nat error

text \<open>\<^verbatim>\<open>errors.As(err, &netErr)\<close>: the first error of the \<^verbatim>\<open>Unwrap\<close> chain that is a
  \<^verbatim>\<open>net.Error\<close>, if there is one.\<close>

fun errors_As_net :: "error \<Rightarrow> net_error option" where
  "errors_As_net (Net ne) = Some ne"
| "errors_As_net (Wrapped k e) = errors_As_net e"
| "errors_As_net EOF = None"
| "errors_As_net ErrClosedManually = None"
| "errors_As_net (PlainError k) = None"

section \<open>Durations\<close>

text \<open>\<^verbatim>\<open>time.Duration\<close> is an \<^verbatim>\<open>int64\<close> count of nanoseconds. Durations are integers here
  and \<open>wrap64\<close> is the two's complement wrap-around of an \<^verbatim>\<open>int64\<close> result.\<close>

type_synonym Duration = int

definition Second :: Duration where
  "Second = 1000000000"

definition wrap64 :: "int \<Rightarrow> int" where
  "wrap64 x = (x + 2 ^ 63) mod 2 ^ 64 - 2 ^ 63"

section \<open>The wrapper, its environment and the trace of a run\<close>

text \<open>A transport connection (\<^verbatim>\<open>net.Conn\<close>) is known by a number; an address is the pair
  \<^verbatim>\<open>(Network(), String())\<close>. A connect hook is a Go closure: what it returns may differ from
  one call to the next, so it is a function of the number of hook calls made before and of
  the connection it is given. What a hook does to the transport it is given is its own
  business and is not recorded. A buffer is a \<open>string\<close>; what the transport writes into
  it is not followed, only the count and the error it returns. The calls of
  \<^verbatim>\<open>log.Printf\<close> are left out.\<close>

type_synonym conn = nat
type_synonym addr = "string \<times> string"
type_synonym hook = "nat \<Rightarrow> conn \<Rightarrow> error option"

record reconnectWaitGroup =
  counter :: nat
  err :: "error option"

text \<open>\<open>ctx_done\<close> is whether \<^verbatim>\<open>c.quit\<close> has been called, that is whether
  \<^verbatim>\<open>c.ctx.Done()\<close> is ready.\<close>

record AutoReconnectConn =
  Conn :: conn
  ctx_done :: bool
  wg :: "reconnectWaitGroup option"
  OnConnected :: "hook option"

text \<open>
  Everything outside the package is the environment:
  \<^item> \<open>DialContext E k a\<close>: what \<^verbatim>\<open>(&net.Dialer{}).DialContext\<close> returns for the dial number
    \<open>k\<close> (counted over the run) to address \<open>a\<close>;
  \<^item> \<open>RemoteAddr E c\<close>: the remote address of transport \<open>c\<close>;
  \<^item> \<open>conn_Read E k c b\<close>, \<open>conn_Write E k c b\<close>: what the transport's \<^verbatim>\<open>Read\<close>, \<^verbatim>\<open>Write\<close>
    return for the transport call number \<open>k\<close>, issued on \<open>c\<close> with buffer \<open>b\<close>;
  \<^item> \<open>conn_Close E cl c\<close>: what closing \<open>c\<close> returns when \<open>cl\<close> were closed before;
  \<^item> \<open>quit_fires E k\<close>: whether \<^verbatim>\<open>c.ctx.Done()\<close> is ready before the timer at the
    \<^verbatim>\<open>select\<close> that follows the failed dial number \<open>k\<close> (some other goroutine called
    \<^verbatim>\<open>Close\<close> in the meantime);
  \<^item> \<open>wg_Wait E k c\<close>: what a caller finds when its \<^verbatim>\<open>wg.Wait()\<close> returns, for the wait
    number \<open>k\<close> entered with the wrapper as \<open>c\<close>: the error the owning goroutine left in
    the wait group and the wrapper as the other goroutines have left it by then; \<open>None\<close>
    when the owner never calls \<^verbatim>\<open>Done\<close>;
  \<^item> \<open>maxReconnectTimeout E\<close>: the package variable of that name.
\<close>

record env =
  DialContext :: "nat \<Rightarrow> addr \<Rightarrow> error + conn"
  RemoteAddr :: "conn \<Rightarrow> addr"
  conn_Read :: "nat \<Rightarrow> conn \<Rightarrow> string \<Rightarrow> int \<times> error option"
  conn_Write :: "nat \<Rightarrow> conn \<Rightarrow> string \<Rightarrow> int \<times> error option"
  conn_Close :: "conn list \<Rightarrow> conn \<Rightarrow> error option"
  quit_fires :: "nat \<Rightarrow> bool"
  wg_Wait :: "nat \<Rightarrow> AutoReconnectConn \<Rightarrow> (error option \<times> AutoReconnectConn) option"
  maxReconnectTimeout :: Duration

text \<open>
  What a run has done to the outside so far:
  \<open>dials\<close> counts the calls of \<^verbatim>\<open>DialContext\<close>, \<open>opened\<close> lists the transports they
  returned, \<open>io_log\<close> lists the transport each \<^verbatim>\<open>c.Conn.Read\<close>/\<^verbatim>\<open>c.Conn.Write\<close> was issued
  on, \<open>timers\<close> lists the durations given to \<^verbatim>\<open>time.After\<close>, \<open>hook_calls\<close> lists the
  transports the connect hook was called with, \<open>closed\<close> lists the transports the
  package called \<^verbatim>\<open>Close\<close> on, and \<open>waits\<close> counts the returns of \<^verbatim>\<open>wg.Wait()\<close>.
  It records what the caller followed here did, not what other goroutines did meanwhile.
\<close>

record trace =
  dials :: nat
  opened :: "conn list"
  io_log :: "conn list"
  timers :: "Duration list"
  hook_calls :: "conn list"
  closed :: "conn list"
  waits :: nat

type_synonym ConnOption = "AutoReconnectConn \<Rightarrow> AutoReconnectConn"

definition WithOnConnected :: "hook option \<Rightarrow> ConnOption" where
  "WithOnConnected fn c = c\<lparr>OnConnected := fn\<rparr>"

definition newConn :: "conn \<Rightarrow> ConnOption list \<Rightarrow> AutoReconnectConn" where
  "newConn conn connOpts =
     (fold (\<lambda>opt c. opt c) connOpts
        \<lparr>Conn = conn, ctx_done = False, wg = None, OnConnected = None\<rparr>)
     \<lparr>ctx_done := False\<rparr>"

section \<open>Close\<close>


section \<open>The dial loop and reconnect, as one caller runs them\<close>

text \<open>\<^verbatim>\<open>c.wg.err = e\<close>. With \<^verbatim>\<open>c.wg\<close> nil the assignment panics: there is no normal
  return, which is \<open>None\<close>.\<close>

definition set_wg_err :: "error option \<Rightarrow> AutoReconnectConn \<Rightarrow> AutoReconnectConn option" where
  "set_wg_err e c =
     (case wg c of
        None \<Rightarrow> None
      | Some g \<Rightarrow> Some (c\<lparr>wg := Some (g\<lparr>err := e\<rparr>)\<rparr>))"

text \<open>Lines 126 to 129: the local \<^verbatim>\<open>timeout\<close> after one more failed dial.\<close>

definition next_timeout :: "env \<Rightarrow> Duration \<Rightarrow> Duration" where
  "next_timeout E timeout =
     (let timeout2 = wrap64 (timeout * 2)
      in if timeout2 > maxReconnectTimeout E then maxReconnectTimeout E else timeout2)"

text \<open>
  The loop labelled \<^verbatim>\<open>reconnect:\<close> (lines 114 to 146), from its head with the local
  \<^verbatim>\<open>timeout\<close>. It may run forever (every dial fails and nobody closes): \<open>None\<close>.
  At the \<^verbatim>\<open>select\<close> of line 130 the environment says which channel is ready first; when
  it is \<^verbatim>\<open>c.ctx.Done()\<close> the signal has fired, so \<open>ctx_done\<close> is set from then on.
\<close>

partial_function (option) reconnect_loop ::
  "env \<Rightarrow> addr \<Rightarrow> Duration \<Rightarrow> AutoReconnectConn \<Rightarrow> trace \<Rightarrow> (AutoReconnectConn \<times> trace) option"
where
  "reconnect_loop E raddr timeout c s =
     (if ctx_done c then
        (case set_wg_err (Some ErrClosedManually) c of
           None \<Rightarrow> None
         | Some c1 \<Rightarrow> Some (c1, s))
      else
        (case DialContext E (dials s) raddr of
           Inl dial_err \<Rightarrow>
             (let timeout2 = next_timeout E timeout;
                  s1 = s\<lparr>dials := dials s + 1, timers := timers s @ [timeout2]\<rparr>
              in if quit_fires E (dials s) then
                   (case set_wg_err (Some ErrClosedManually) (c\<lparr>ctx_done := True\<rparr>) of
                      None \<Rightarrow> None
                    | Some c1 \<Rightarrow> Some (c1, s1))
                 else reconnect_loop E raddr timeout2 c s1)
         | Inr conn \<Rightarrow>
             (let c1 = c\<lparr>Conn := conn\<rparr>;
                  s1 = s\<lparr>dials := dials s + 1, opened := opened s @ [conn]\<rparr>
              in case OnConnected c1 of
                   None \<Rightarrow> Some (c1, s1)
                 | Some h \<Rightarrow>
                     (case set_wg_err (h (length (hook_calls s1)) (Conn c1)) c1 of
                        None \<Rightarrow> None
                      | Some c2 \<Rightarrow>
                          Some (c2, s1\<lparr>hook_calls := hook_calls s1 @ [Conn c1]\<rparr>)))))"

text \<open>
  \<^verbatim>\<open>reconnect\<close>. When \<^verbatim>\<open>c.wg\<close> is not nil (lines 99 to 104) another goroutine owns a
  reconnect operation: the caller waits in \<^verbatim>\<open>wg.Wait()\<close> and returns \<^verbatim>\<open>wg.err\<close>, without
  dialing. What the owner stored there, and what became of the wrapper meanwhile, is the
  environment's \<open>wg_Wait\<close>; if the owner never calls \<^verbatim>\<open>Done\<close> the caller never returns.
  How the goroutines interleave is the subject of the section on several goroutines.
\<close>

definition reconnect ::
  "env \<Rightarrow> AutoReconnectConn \<Rightarrow> trace \<Rightarrow> (error option \<times> AutoReconnectConn \<times> trace) option" where
  "reconnect E c s =
     (case wg c of
        Some g \<Rightarrow>
          (case wg_Wait E (waits s) c of
             None \<Rightarrow> None
           | Some (wg_err, c1) \<Rightarrow> Some (wg_err, c1, s\<lparr>waits := waits s + 1\<rparr>))
      | None \<Rightarrow>
          (let c0 = c\<lparr>wg := Some \<lparr>counter = 1, err = None\<rparr>\<rparr>;
               raddr = RemoteAddr E (Conn c0)
           in case reconnect_loop E raddr Second c0 s of
                None \<Rightarrow> None
              | Some (c1, s1) \<Rightarrow>
                  (case wg c1 of
                     None \<Rightarrow> None
                   | Some g1 \<Rightarrow> Some (err g1, c1\<lparr>wg := None\<rparr>, s1))))"

text \<open>The condition of line 86.\<close>

definition reconnect_worthy :: "error \<Rightarrow> bool" where
  "reconnect_worthy e =
     (e = EOF \<or> (case errors_As_net e of
                   Some netErr \<Rightarrow> \<not> Temporary netErr
                 | None \<Rightarrow> False))"

definition reconnectIfNeeded ::
  "env \<Rightarrow> error option \<Rightarrow> AutoReconnectConn \<Rightarrow> trace \<Rightarrow>
   ((bool \<times> error option) \<times> AutoReconnectConn \<times> trace) option" where
  "reconnectIfNeeded E e0 c s =
     (case e0 of
        None \<Rightarrow> Some ((False, None), c, s)
      | Some e \<Rightarrow>
          if reconnect_worthy e
          then (case reconnect E c s of
                  None \<Rightarrow> None
                | Some (e1, c1, s1) \<Rightarrow> Some ((True, e1), c1, s1))
          else Some ((False, Some e), c, s))"

section \<open>Read and Write\<close>

text \<open>Both call themselves after a reconnection that returned nil, so both may run
  forever: \<open>None\<close>.\<close>

partial_function (option) Read ::
  "env \<Rightarrow> string \<Rightarrow> AutoReconnectConn \<Rightarrow> trace \<Rightarrow>
   ((int \<times> error option) \<times> AutoReconnectConn \<times> trace) option"
where
  "Read E b c s =
     (case conn_Read E (length (io_log s)) (Conn c) b of (n, e0) \<Rightarrow>
        (case reconnectIfNeeded E e0 c (s\<lparr>io_log := io_log s @ [Conn c]\<rparr>) of
           None \<Rightarrow> None
         | Some ((isReconnected, e1), c1, s1) \<Rightarrow>
             if e1 \<noteq> None then Some ((0, e1), c1, s1)
             else if isReconnected then Read E b c1 s1
             else Some ((n, e1), c1, s1)))"

partial_function (option) Write ::
  "env \<Rightarrow> string \<Rightarrow> AutoReconnectConn \<Rightarrow> trace \<Rightarrow>
   ((int \<times> error option) \<times> AutoReconnectConn \<times> trace) option"
where
  "Write E b c s =
     (case conn_Write E (length (io_log s)) (Conn c) b of (n, e0) \<Rightarrow>
        (case reconnectIfNeeded E e0 c (s\<lparr>io_log := io_log s @ [Conn c]\<rparr>) of
           None \<Rightarrow> None
         | Some ((isReconnected, e1), c1, s1) \<Rightarrow>
             if e1 \<noteq> None then Some ((0, e1), c1, s1)
             else if isReconnected then Write E b c1 s1
             else Some ((n, e1), c1, s1)))"

section \<open>Construction\<close>

definition DialAutoReconnectContext ::
  "env \<Rightarrow> string \<Rightarrow> string \<Rightarrow> ConnOption list \<Rightarrow> trace \<Rightarrow>
   (error + AutoReconnectConn) \<times> trace" where
  "DialAutoReconnectContext E network address connOpts s =
     (case DialContext E (dials s) (network, address) of
        Inl e \<Rightarrow> (Inl e, s\<lparr>dials := dials s + 1\<rparr>)
      | Inr conn \<Rightarrow>
          (let s1 = s\<lparr>dials := dials s + 1, opened := opened s @ [conn]\<rparr>;
               autoConn = newConn conn connOpts
           in case OnConnected autoConn of
                None \<Rightarrow> (Inr autoConn, s1)
              | Some h \<Rightarrow>
                  (case h (length (hook_calls s1)) conn of
                     Some e \<Rightarrow> (Inl e, s1\<lparr>hook_calls := hook_calls s1 @ [conn]\<rparr>)
                   | None \<Rightarrow> (Inr autoConn, s1\<lparr>hook_calls := hook_calls s1 @ [conn]\<rparr>))))"

section \<open>reconnect, called by several goroutines\<close>

text \<open>
  \<^verbatim>\<open>reconnect\<close> again, statement by statement, for goroutines that call it on one wrapper
  side by side. A goroutine is known by a number. Where it stands is a \<open>pc\<close>, which
  also holds its local variables:
  \<^item> \<open>Idle\<close>: not inside \<^verbatim>\<open>reconnect\<close>;
  \<^item> \<open>AtLock\<close>: line 98, before \<^verbatim>\<open>c.mu.Lock()\<close>;
  \<^item> \<open>AtWait p\<close>: line 102, in \<^verbatim>\<open>wg.Wait()\<close>, the local \<^verbatim>\<open>wg\<close> pointing to wait group \<open>p\<close>;
  \<^item> \<open>AtReturnErr p\<close>: line 103, before \<^verbatim>\<open>return wg.err\<close>;
  \<^item> \<open>AtRemoteAddr\<close>: line 111, after the unlock of line 108;
  \<^item> \<open>AtHead raddr timeout\<close>: line 116, the head of the loop;
  \<^item> \<open>AtDial raddr timeout\<close>: line 124, in \<^verbatim>\<open>DialContext\<close>;
  \<^item> \<open>AtSelect raddr timeout\<close>: line 130, in the \<^verbatim>\<open>select\<close> on the timer and \<^verbatim>\<open>c.ctx.Done()\<close>;
  \<^item> \<open>AtHook\<close>: line 141, after \<^verbatim>\<open>c.Conn = conn\<close>;
  \<^item> \<open>AtUnpublish\<close>: line 148, after the loop, before \<^verbatim>\<open>c.mu.Lock()\<close>;
  \<^item> \<open>AtDone p\<close>: line 154, before \<^verbatim>\<open>wg.Done()\<close>, the local \<^verbatim>\<open>wg\<close> pointing to \<open>p\<close>.
\<close>

type_synonym tid = nat

datatype pc =
    Idle
  | AtLock
  | AtWait nat
  | AtReturnErr nat
  | AtRemoteAddr
  | AtHead addr Duration
  | AtDial addr Duration
  | AtSelect addr Duration
  | AtHook
  | AtUnpublish
  | AtDone nat

text \<open>
  The wrapper as the goroutines share it. \<^verbatim>\<open>c.wg\<close> is a pointer: \<open>sh_wg\<close> is the number of
  a wait group in \<open>wgs\<close>, the wait groups allocated so far, and a goroutine keeps that
  number in its local \<^verbatim>\<open>wg\<close> after \<^verbatim>\<open>c.wg\<close> is nil again. \<open>sh_hook\<close> is whether
  \<^verbatim>\<open>c.OnConnected\<close> is not nil. Three fields only record what happened: \<open>owners\<close> (which
  goroutine allocated each wait group), \<open>dial_log\<close> (for each call of \<^verbatim>\<open>DialContext\<close>, the
  goroutine and the value of \<^verbatim>\<open>c.wg\<close> then) and \<open>returns\<close> (for each return of
  \<^verbatim>\<open>reconnect\<close>, the goroutine, its local \<^verbatim>\<open>wg\<close> and the error returned).
\<close>

record shared =
  sh_Conn :: conn
  sh_ctx_done :: bool
  sh_wg :: "nat option"
  sh_hook :: bool
  wgs :: "reconnectWaitGroup list"
  pcs :: "tid \<Rightarrow> pc"
  owners :: "tid list"
  dial_log :: "(tid \<times> nat option) list"
  returns :: "(tid \<times> nat \<times> error option) list"

text \<open>
  What can happen next. The sections between \<^verbatim>\<open>c.mu.Lock()\<close> and \<^verbatim>\<open>c.mu.Unlock()\<close>
  (lines 98 to 108 and 148 to 151) exclude each other and never block inside, so each is
  one event. What the dialer and the hook return comes with the event.
  \<open>CloseCalled\<close> is \<^verbatim>\<open>c.quit()\<close> (line 49), run by whoever calls \<^verbatim>\<open>Close\<close>.
\<close>

datatype event =
    Call tid
  | Lock tid
  | Wake tid
  | ReturnErr tid
  | Addr tid
  | Check tid
  | Dialed tid "error + conn"
  | Timer tid
  | Cancelled tid
  | Hooked tid "error option"
  | Unpublish tid
  | Done tid
  | CloseCalled

definition goto :: "tid \<Rightarrow> pc \<Rightarrow> shared \<Rightarrow> shared" where
  "goto t l s = s\<lparr>pcs := (pcs s)(t := l)\<rparr>"

text \<open>\<^verbatim>\<open>c.wg.err = e\<close>, through the pointer. With \<^verbatim>\<open>c.wg\<close> nil the assignment panics:
  no next state.\<close>

definition write_err :: "error option \<Rightarrow> shared \<Rightarrow> shared option" where
  "write_err e s =
     (case sh_wg s of
        None \<Rightarrow> None
      | Some p \<Rightarrow>
          if p < length (wgs s)
          then Some (s\<lparr>wgs := (wgs s)[p := (wgs s ! p)\<lparr>err := e\<rparr>]\<rparr>)
          else None)"

text \<open>\<open>step E ev s\<close> is the state after event \<open>ev\<close>, or \<open>None\<close> when \<open>ev\<close> cannot happen in
  \<open>s\<close> (the goroutine is elsewhere, is blocked, or would panic).\<close>

fun step :: "env \<Rightarrow> event \<Rightarrow> shared \<Rightarrow> shared option" where
  "step E (Call t) s =
     (case pcs s t of
        Idle \<Rightarrow> Some (goto t AtLock s)
      | _ \<Rightarrow> None)"
| "step E (Lock t) s =
     (case pcs s t of
        AtLock \<Rightarrow>
          (case sh_wg s of
             Some p \<Rightarrow> Some (goto t (AtWait p) s)
           | None \<Rightarrow>
               Some (goto t AtRemoteAddr
                 (s\<lparr>sh_wg := Some (length (wgs s)),
                    wgs := wgs s @ [\<lparr>counter = 1, err = None\<rparr>],
                    owners := owners s @ [t]\<rparr>)))
      | _ \<Rightarrow> None)"
| "step E (Wake t) s =
     (case pcs s t of
        AtWait p \<Rightarrow>
          if p < length (wgs s) \<and> counter (wgs s ! p) = 0
          then Some (goto t (AtReturnErr p) s)
          else None
      | _ \<Rightarrow> None)"
| "step E (ReturnErr t) s =
     (case pcs s t of
        AtReturnErr p \<Rightarrow>
          if p < length (wgs s)
          then Some (goto t Idle (s\<lparr>returns := returns s @ [(t, p, err (wgs s ! p))]\<rparr>))
          else None
      | _ \<Rightarrow> None)"
| "step E (Addr t) s =
     (case pcs s t of
        AtRemoteAddr \<Rightarrow> Some (goto t (AtHead (RemoteAddr E (sh_Conn s)) Second) s)
      | _ \<Rightarrow> None)"
| "step E (Check t) s =
     (case pcs s t of
        AtHead raddr timeout \<Rightarrow>
          if sh_ctx_done s
          then map_option (goto t AtUnpublish) (write_err (Some ErrClosedManually) s)
          else Some (goto t (AtDial raddr timeout) s)
      | _ \<Rightarrow> None)"
| "step E (Dialed t r) s =
     (case pcs s t of
        AtDial raddr timeout \<Rightarrow>
          (let s1 = s\<lparr>dial_log := dial_log s @ [(t, sh_wg s)]\<rparr>
           in case r of
                Inl dial_err \<Rightarrow> Some (goto t (AtSelect raddr (next_timeout E timeout)) s1)
              | Inr conn \<Rightarrow> Some (goto t AtHook (s1\<lparr>sh_Conn := conn\<rparr>)))
      | _ \<Rightarrow> None)"
| "step E (Timer t) s =
     (case pcs s t of
        AtSelect raddr timeout \<Rightarrow> Some (goto t (AtHead raddr timeout) s)
      | _ \<Rightarrow> None)"
| "step E (Cancelled t) s =
     (case pcs s t of
        AtSelect raddr timeout \<Rightarrow>
          if sh_ctx_done s
          then map_option (goto t AtUnpublish) (write_err (Some ErrClosedManually) s)
          else None
      | _ \<Rightarrow> None)"
| "step E (Hooked t r) s =
     (case pcs s t of
        AtHook \<Rightarrow>
          if sh_hook s
          then map_option (goto t AtUnpublish) (write_err r s)
          else Some (goto t AtUnpublish s)
      | _ \<Rightarrow> None)"
| "step E (Unpublish t) s =
     (case pcs s t of
        AtUnpublish \<Rightarrow>
          (case sh_wg s of
             None \<Rightarrow> None
           | Some p \<Rightarrow> Some (goto t (AtDone p) (s\<lparr>sh_wg := None\<rparr>)))
      | _ \<Rightarrow> None)"
| "step E (Done t) s =
     (case pcs s t of
        AtDone p \<Rightarrow>
          if p < length (wgs s) \<and> 0 < counter (wgs s ! p)
          then Some (goto t Idle
                 (s\<lparr>wgs := (wgs s)[p := (wgs s ! p)\<lparr>counter := counter (wgs s ! p) - 1\<rparr>],
                    returns := returns s @ [(t, p, err (wgs s ! p))]\<rparr>))
          else None
      | _ \<Rightarrow> None)"
| "step E CloseCalled s = Some (s\<lparr>sh_ctx_done := True\<rparr>)"

fun run :: "env \<Rightarrow> event list \<Rightarrow> shared \<Rightarrow> shared option" where
  "run E [] s = Some s"
| "run E (ev # evs) s =
     (case step E ev s of
        None \<Rightarrow> None
      | Some s1 \<Rightarrow> run E evs s1)"

text \<open>A wrapper as \<^verbatim>\<open>newConn\<close> leaves it, with no goroutine inside \<^verbatim>\<open>reconnect\<close>.\<close>

definition init :: "conn \<Rightarrow> bool \<Rightarrow> shared" where
  "init conn hook =
     \<lparr>sh_Conn = conn, sh_ctx_done = False, sh_wg = None, sh_hook = hook, wgs = [],
      pcs = (\<lambda>t. Idle), owners = [], dial_log = [], returns = []\<rparr>"

text \<open>A goroutine owns the reconnect operation from the unlock of line 108 to the lock
  of line 148: it is the one that runs the dial loop.\<close>

fun owning :: "pc \<Rightarrow> bool" where
  "owning AtRemoteAddr = True"
| "owning (AtHead raddr timeout) = True"
| "owning (AtDial raddr timeout) = True"
| "owning (AtSelect raddr timeout) = True"
| "owning AtHook = True"
| "owning AtUnpublish = True"
| "owning Idle = False"
| "owning AtLock = False"
| "owning (AtWait p) = False"
| "owning (AtReturnErr p) = False"
| "owning (AtDone p) = False"

text \<open>Where the goroutines stand, against what is published in \<^verbatim>\<open>c.wg\<close>: with
  \<^verbatim>\<open>c.wg\<close> nil nobody owns an operation; with \<^verbatim>\<open>c.wg\<close> pointing to \<open>p\<close> the goroutine
  that allocated \<open>p\<close> owns it and nobody else does; and every dial was made by the
  goroutine that had allocated the wait group published then.\<close>

definition inv_own :: "shared \<Rightarrow> bool" where
  "inv_own s \<longleftrightarrow>
     length (owners s) = length (wgs s)
   \<and> (case sh_wg s of
        None \<Rightarrow> \<forall>u. \<not> owning (pcs s u)
      | Some p \<Rightarrow> p < length (owners s) \<and> (\<forall>u. owning (pcs s u) \<longleftrightarrow> u = owners s ! p))
   \<and> (\<forall>(t, q) \<in> set (dial_log s). \<exists>p. q = Some p \<and> p < length (owners s) \<and> owners s ! p = t)"

text \<open>The wait groups: the published one has counter 1 and nobody is about to call
  \<^verbatim>\<open>Done\<close> on it; a wait group somebody is about to call \<^verbatim>\<open>Done\<close> on has counter 1 and
  nobody else is about to; a goroutine that woke up, and every return recorded, has a wait
  group with counter 0, and a recorded return gave the error that wait group holds.\<close>

definition inv_ret :: "shared \<Rightarrow> bool" where
  "inv_ret s \<longleftrightarrow>
     (\<forall>p. sh_wg s = Some p \<longrightarrow>
        p < length (wgs s) \<and> counter (wgs s ! p) = 1 \<and> (\<forall>t. pcs s t \<noteq> AtDone p))
   \<and> (\<forall>t p. pcs s t = AtDone p \<longrightarrow>
        p < length (wgs s) \<and> counter (wgs s ! p) = 1 \<and> (\<forall>u. pcs s u = AtDone p \<longrightarrow> u = t))
   \<and> (\<forall>t p. pcs s t = AtReturnErr p \<longrightarrow> p < length (wgs s) \<and> counter (wgs s ! p) = 0)
   \<and> (\<forall>(t, p, e) \<in> set (returns s).
        p < length (wgs s) \<and> counter (wgs s ! p) = 0 \<and> err (wgs s ! p) = e)"

section \<open>Backoff durations\<close>

text \<open>The durations of \<open>k\<close> timers in a row, when the local \<^verbatim>\<open>timeout\<close> is \<open>t\<close> before
  the first of the \<open>k\<close> failed dials.\<close>

fun timeouts :: "env \<Rightarrow> Duration \<Rightarrow> nat \<Rightarrow> Duration list" where
  "timeouts E t 0 = []"
| "timeouts E t (Suc k) = next_timeout E t # timeouts E (next_timeout E t) k"

declare reconnect_loop.simps [code]
declare Read.simps [code]
declare Write.simps [code]

section \<open>Concrete environments\<close>

text \<open>A wrapper around transport 0 with no hook, and a run that has done nothing yet.\<close>

definition conn0 :: AutoReconnectConn where
  "conn0 = \<lparr>Conn = 0, ctx_done = False, wg = None, OnConnected = None\<rparr>"

definition trace0 :: trace where
  "trace0 =
     \<lparr>dials = 0, opened = [], io_log = [], timers = [], hook_calls = [], closed = [],
      waits = 0\<rparr>"

text \<open>An environment where the dial number \<open>k\<close> returns \<open>dial k\<close>, the transport call
  number \<open>k\<close> returns \<open>io k\<close>, nobody else closes the wrapper, a wait on another
  goroutine's operation never ends and the package variable has its initial value.\<close>

definition example_env :: "(nat \<Rightarrow> error + conn) \<Rightarrow> (nat \<Rightarrow> int \<times> error option) \<Rightarrow> env" where
  "example_env dial io =
     \<lparr>DialContext = (\<lambda>k a. dial k),
      RemoteAddr = (\<lambda>c. (''tcp'', ''localhost:6606'')),
      conn_Read = (\<lambda>k c b. io k),
      conn_Write = (\<lambda>k c b. io k),
      conn_Close = (\<lambda>cl c. None),
      quit_fires = (\<lambda>k. False),
      wg_Wait = (\<lambda>k c. None),
      maxReconnectTimeout = 60 * Second\<rparr>"

text \<open>Every dial succeeds, and every transport call fails with a temporary
  \<^verbatim>\<open>net.Error\<close> after moving 3 bytes.\<close>

definition env_temporary :: env where
  "env_temporary = example_env (\<lambda>k. Inr (Suc k)) (\<lambda>k. (3, Some (Net (NetErr True 1))))"

text \<open>Every dial succeeds, and every transport call fails with an error that wraps a
  plain error.\<close>

definition env_wrapped :: env where
  "env_wrapped = example_env (\<lambda>k. Inr (Suc k)) (\<lambda>k. (3, Some (Wrapped 1 (PlainError 2))))"

text \<open>Every dial succeeds; the first transport call meets end of stream, the later ones
  move 5 bytes.\<close>

definition env_drop_once :: env where
  "env_drop_once =
     example_env (\<lambda>k. Inr (Suc k)) (\<lambda>k. if k < 1 then (0, Some EOF) else (5, None))"

text \<open>The same, with end of stream for the first two transport calls.\<close>

definition env_two_drops :: env where
  "env_two_drops =
     example_env (\<lambda>k. Inr (Suc k)) (\<lambda>k. if k < 2 then (0, Some EOF) else (5, None))"

text \<open>The first dial fails, the later ones succeed.\<close>

definition env_dial_fails_once :: env where
  "env_dial_fails_once =
     example_env (\<lambda>k. if k < 1 then Inl (PlainError 1) else Inr (Suc k)) (\<lambda>k. (0, Some EOF))"

text \<open>The first seven dials fail, the later ones succeed.\<close>

definition env_dial_fails_7 :: env where
  "env_dial_fails_7 =
     example_env (\<lambda>k. if k < 7 then Inl (PlainError 1) else Inr (Suc k)) (\<lambda>k. (0, Some EOF))"

text \<open>A hook that always fails.\<close>

definition hook_fails :: hook where
  "hook_fails k c = Some (PlainError 9)"

text \<open>The first dial fails and the later ones succeed; the first transport call meets end
  of stream and the later ones move 5 bytes.\<close>

definition env_hook_demo :: env where
  "env_hook_demo =
     example_env (\<lambda>k. if k < 1 then Inl (PlainError 1) else Inr (Suc k))
       (\<lambda>k. if k < 1 then (0, Some EOF) else (5, None))"

text \<open>The wrapper \<open>conn0\<close> with the failing hook.\<close>

definition conn_hooked :: AutoReconnectConn where
  "conn_hooked = conn0\<lparr>OnConnected := Some hook_fails\<rparr>"

text \<open>Two goroutines call \<^verbatim>\<open>reconnect\<close>. Goroutine 0 takes the lock first and dials twice
  (the first dial fails, the second returns transport 5), its hook fails, it clears
  \<^verbatim>\<open>c.wg\<close> and calls \<^verbatim>\<open>Done\<close>; goroutine 1 takes the lock second and waits.\<close>

definition demo_run :: "event list" where
  "demo_run =
     [Call 0, Call 1, Lock 0, Lock 1, Addr 0, Check 0, Dialed 0 (Inl (PlainError 1)), Timer 0,
      Check 0, Dialed 0 (Inr 5), Hooked 0 (Some (PlainError 9)), Unpublish 0, Done 0, Wake 1,
      ReturnErr 1]"

text \<open>The same two goroutines, with goroutine 1 reaching the lock only after goroutine 0
  has cleared \<^verbatim>\<open>c.wg\<close> and called \<^verbatim>\<open>Done\<close>: both called \<^verbatim>\<open>reconnect\<close> before either took
  the lock. Goroutine 0 dials transport 5 and its hook fails; goroutine 1 dials transport 6
  and its hook returns nil.\<close>

definition late_run :: "event list" where
  "late_run =
     [Call 0, Call 1, Lock 0, Addr 0, Check 0, Dialed 0 (Inr 5), Hooked 0 (Some (PlainError 9)),
      Unpublish 0, Done 0, Lock 1, Addr 1, Check 1, Dialed 1 (Inr 6), Hooked 1 None,
      Unpublish 1, Done 1]"





lemmas ex_defs = example_env_def conn0_def trace0_def

section \<open>Facts about the dial loop\<close>



lemma reconnect_loop_fail:
  "\<not> ctx_done c \<Longrightarrow> DialContext E (dials s) raddr = Inl e \<Longrightarrow> \<not> quit_fires E (dials s) \<Longrightarrow>
   reconnect_loop E raddr t c s =
   reconnect_loop E raddr (next_timeout E t) c
     (s\<lparr>dials := dials s + 1, timers := timers s @ [next_timeout E t]\<rparr>)"
  by (subst reconnect_loop.simps) (simp add: Let_def)

lemma reconnect_loop_quit:
  "\<not> ctx_done c \<Longrightarrow> wg c = Some g \<Longrightarrow> DialContext E (dials s) raddr = Inl e \<Longrightarrow> quit_fires E (dials s) \<Longrightarrow>
   reconnect_loop E raddr t c s =
   Some (c\<lparr>ctx_done := True, wg := Some (g\<lparr>err := Some ErrClosedManually\<rparr>)\<rparr>,
         s\<lparr>dials := dials s + 1, timers := timers s @ [next_timeout E t]\<rparr>)"
  by (subst reconnect_loop.simps) (simp add: Let_def set_wg_err_def)

lemma reconnect_loop_connected:
  "\<not> ctx_done c \<Longrightarrow> DialContext E (dials s) raddr = Inr conn \<Longrightarrow> OnConnected c = None \<Longrightarrow>
   reconnect_loop E raddr t c s =
   Some (c\<lparr>Conn := conn\<rparr>, s\<lparr>dials := dials s + 1, opened := opened s @ [conn]\<rparr>)"
  by (subst reconnect_loop.simps) (simp add: Let_def)

lemma reconnect_loop_hook:
  "\<not> ctx_done c \<Longrightarrow> wg c = Some g \<Longrightarrow> DialContext E (dials s) raddr = Inr conn \<Longrightarrow>
   OnConnected c = Some h \<Longrightarrow>
   reconnect_loop E raddr t c s =
   Some (c\<lparr>Conn := conn, wg := Some (g\<lparr>err := h (length (hook_calls s)) conn\<rparr>)\<rparr>,
         s\<lparr>dials := dials s + 1, opened := opened s @ [conn],
           hook_calls := hook_calls s @ [conn]\<rparr>)"
  by (subst reconnect_loop.simps) (simp add: Let_def set_wg_err_def)

lemma reconnect_loop_failures:
  "\<not> ctx_done c \<Longrightarrow>
   (\<forall>i<k. isl (DialContext E (dials s + i) raddr) \<and> \<not> quit_fires E (dials s + i)) \<Longrightarrow>
   reconnect_loop E raddr t c s =
   reconnect_loop E raddr ((next_timeout E ^^ k) t) c
     (s\<lparr>dials := dials s + k, timers := timers s @ timeouts E t k\<rparr>)"
proof (induction k arbitrary: t s)
  case 0
  then show ?case by simp
next
  case (Suc k)
  from Suc.prems(2) have h0: "isl (DialContext E (dials s) raddr)" "\<not> quit_fires E (dials s)"
    by (metis add.right_neutral zero_less_Suc)+
  then obtain e where e: "DialContext E (dials s) raddr = Inl e"
    by (auto simp: isl_def)
  let ?s1 = "s\<lparr>dials := dials s + 1, timers := timers s @ [next_timeout E t]\<rparr>"
  have step: "reconnect_loop E raddr t c s = reconnect_loop E raddr (next_timeout E t) c ?s1"
    using reconnect_loop_fail [OF Suc.prems(1) e h0(2)] .
  have rest: "\<forall>i<k. isl (DialContext E (dials ?s1 + i) raddr) \<and> \<not> quit_fires E (dials ?s1 + i)"
  proof (intro allI impI)
    fix i assume "i < k"
    then have "Suc i < Suc k" by simp
    with Suc.prems(2) have "isl (DialContext E (dials s + Suc i) raddr) \<and> \<not> quit_fires E (dials s + Suc i)"
      by blast
    then show "isl (DialContext E (dials ?s1 + i) raddr) \<and> \<not> quit_fires E (dials ?s1 + i)"
      by simp
  qed
  show ?case
    unfolding step
    by (subst Suc.IH [OF Suc.prems(1) rest]) (simp add: funpow_swap1)
qed

lemma next_timeout_default:
  "maxReconnectTimeout E = 60 * Second \<Longrightarrow> 0 \<le> t \<Longrightarrow> t \<le> 60 * Second \<Longrightarrow>
   next_timeout E t = min (2 * t) (60 * Second)"
  by (simp add: next_timeout_def Let_def wrap64_def Second_def min_def)

lemma funpow_next_timeout_default:
  "maxReconnectTimeout E = 60 * Second \<Longrightarrow>
   (next_timeout E ^^ k) Second = min (Second * 2 ^ k) (60 * Second)"
proof (induction k)
  case 0
  then show ?case by (simp add: Second_def)
next
  case (Suc k)
  have pos: "(0::int) \<le> Second * 2 ^ k" by (simp add: Second_def)
  have "(next_timeout E ^^ Suc k) Second = next_timeout E (min (Second * 2 ^ k) (60 * Second))"
    using Suc by simp
  also have "\<dots> = min (2 * min (Second * 2 ^ k) (60 * Second)) (60 * Second)"
    using pos by (intro next_timeout_default [OF Suc.prems]) (simp_all add: Second_def)
  also have "\<dots> = min (Second * 2 ^ Suc k) (60 * Second)"
    using pos by (simp add: min_def Second_def)
  finally show ?case .
qed

lemma timeouts_funpow:
  "timeouts E t k = map (\<lambda>a. (next_timeout E ^^ Suc a) t) [0..<k]"
proof (induction k arbitrary: t)
  case 0
  then show ?case by simp
next
  case (Suc k)
  have "map (\<lambda>a. (next_timeout E ^^ Suc a) t) [0..<Suc k] =
        next_timeout E t # map (\<lambda>a. (next_timeout E ^^ Suc a) (next_timeout E t)) [0..<k]"
    by (simp only: upt_conv_Cons [of 0 "Suc k"] map_Suc_upt [symmetric] list.map map_map o_def funpow_swap1 [symmetric])
       (simp add: funpow_swap1)
  then show ?case using Suc.IH [of "next_timeout E t"] by simp
qed

lemma timeouts_default:
  "maxReconnectTimeout E = 60 * Second \<Longrightarrow>
   timeouts E Second k = map (\<lambda>a. min (2 * Second * 2 ^ a) (60 * Second)) [0..<k]"
  by (simp add: timeouts_funpow funpow_next_timeout_default mult.assoc mult.left_commute del: funpow.simps)


lemma reconnect_connects:
  assumes "wg c = None" and "\<not> ctx_done c"
    and "\<forall>i<k. isl (DialContext E (dials s + i) (RemoteAddr E (Conn c))) \<and> \<not> quit_fires E (dials s + i)"
    and "DialContext E (dials s + k) (RemoteAddr E (Conn c)) = Inr conn"
  shows "reconnect E c s =
         Some (case OnConnected c of None \<Rightarrow> None | Some h \<Rightarrow> h (length (hook_calls s)) conn,
               c\<lparr>Conn := conn\<rparr>,
               s\<lparr>dials := dials s + k + 1,
                 opened := opened s @ [conn],
                 timers := timers s @ timeouts E Second k,
                 hook_calls := (case OnConnected c of None \<Rightarrow> hook_calls s
                                | Some h \<Rightarrow> hook_calls s @ [conn])\<rparr>)"
proof -
  let ?g = "\<lparr>counter = 1, err = None\<rparr>"
  let ?c0 = "c\<lparr>wg := Some ?g\<rparr>"
  let ?a = "RemoteAddr E (Conn c)"
  let ?sk = "s\<lparr>dials := dials s + k, timers := timers s @ timeouts E Second k\<rparr>"
  have nd: "\<not> ctx_done ?c0" using assms(2) by simp
  have skip: "reconnect_loop E ?a Second ?c0 s =
              reconnect_loop E ?a ((next_timeout E ^^ k) Second) ?c0 ?sk"
    using reconnect_loop_failures [OF nd assms(3)] .
  have dk: "DialContext E (dials ?sk) ?a = Inr conn" using assms(4) by simp
  show ?thesis
  proof (cases "OnConnected c")
    case None
    then have "OnConnected ?c0 = None" by simp
    from reconnect_loop_connected [OF nd dk this]
    have loop: "reconnect_loop E ?a Second ?c0 s =
                Some (?c0\<lparr>Conn := conn\<rparr>, ?sk\<lparr>dials := dials ?sk + 1, opened := opened ?sk @ [conn]\<rparr>)"
      unfolding skip .
    show ?thesis using assms(1) None loop
      by (simp add: reconnect_def Let_def)
  next
    case (Some h)
    then have "OnConnected ?c0 = Some h" by simp
    from reconnect_loop_hook [OF nd _ dk this, of ?g]
    have loop: "reconnect_loop E ?a Second ?c0 s =
                Some (?c0\<lparr>Conn := conn, wg := Some (?g\<lparr>err := h (length (hook_calls ?sk)) conn\<rparr>)\<rparr>,
                      ?sk\<lparr>dials := dials ?sk + 1, opened := opened ?sk @ [conn],
                        hook_calls := hook_calls ?sk @ [conn]\<rparr>)"
      unfolding skip by simp
    show ?thesis using assms(1) Some loop
      by (simp add: reconnect_def Let_def)
  qed
qed

section \<open>Facts about Read and Write\<close>

lemma reconnectIfNeeded_nil: "reconnectIfNeeded E None c s = Some ((False, None), c, s)"
  by (simp add: reconnectIfNeeded_def)

lemma reconnectIfNeeded_pass:
  "\<not> reconnect_worthy e \<Longrightarrow> reconnectIfNeeded E (Some e) c s = Some ((False, Some e), c, s)"
  by (simp add: reconnectIfNeeded_def)

lemma reconnectIfNeeded_worthy:
  "reconnect_worthy e \<Longrightarrow>
   reconnectIfNeeded E (Some e) c s =
   (case reconnect E c s of None \<Rightarrow> None | Some (e1, c1, s1) \<Rightarrow> Some ((True, e1), c1, s1))"
  by (simp add: reconnectIfNeeded_def)

lemma Read_nil:
  "conn_Read E (length (io_log s)) (Conn c) b = (n, None) \<Longrightarrow>
   Read E b c s = Some ((n, None), c, s\<lparr>io_log := io_log s @ [Conn c]\<rparr>)"
  by (subst Read.simps) (simp add: reconnectIfNeeded_nil)

lemma Write_nil:
  "conn_Write E (length (io_log s)) (Conn c) b = (n, None) \<Longrightarrow>
   Write E b c s = Some ((n, None), c, s\<lparr>io_log := io_log s @ [Conn c]\<rparr>)"
  by (subst Write.simps) (simp add: reconnectIfNeeded_nil)

lemma Read_pass:
  "conn_Read E (length (io_log s)) (Conn c) b = (n, Some e) \<Longrightarrow> \<not> reconnect_worthy e \<Longrightarrow>
   Read E b c s = Some ((0, Some e), c, s\<lparr>io_log := io_log s @ [Conn c]\<rparr>)"
  by (subst Read.simps) (simp add: reconnectIfNeeded_pass)

lemma Write_pass:
  "conn_Write E (length (io_log s)) (Conn c) b = (n, Some e) \<Longrightarrow> \<not> reconnect_worthy e \<Longrightarrow>
   Write E b c s = Some ((0, Some e), c, s\<lparr>io_log := io_log s @ [Conn c]\<rparr>)"
  by (subst Write.simps) (simp add: reconnectIfNeeded_pass)

lemma Read_worthy:
  "conn_Read E (length (io_log s)) (Conn c) b = (n, Some e) \<Longrightarrow> reconnect_worthy e \<Longrightarrow>
   Read E b c s =
   (case reconnect E c (s\<lparr>io_log := io_log s @ [Conn c]\<rparr>) of
      None \<Rightarrow> None
    | Some (None, c1, s1) \<Rightarrow> Read E b c1 s1
    | Some (Some e1, c1, s1) \<Rightarrow> Some ((0, Some e1), c1, s1))"
  by (subst Read.simps) (simp add: reconnectIfNeeded_worthy split: option.splits)

lemma Write_worthy:
  "conn_Write E (length (io_log s)) (Conn c) b = (n, Some e) \<Longrightarrow> reconnect_worthy e \<Longrightarrow>
   Write E b c s =
   (case reconnect E c (s\<lparr>io_log := io_log s @ [Conn c]\<rparr>) of
      None \<Rightarrow> None
    | Some (None, c1, s1) \<Rightarrow> Write E b c1 s1
    | Some (Some e1, c1, s1) \<Rightarrow> Some ((0, Some e1), c1, s1))"
  by (subst Write.simps) (simp add: reconnectIfNeeded_worthy split: option.splits)

lemma Read_error_zero_aux:
  assumes "Read E b c s = Some y"
  shows "snd (fst y) \<noteq> None \<longrightarrow> fst (fst y) = 0"
  by (rule Read.raw_induct [where P = "\<lambda>E b c s y. snd (fst y) \<noteq> None \<longrightarrow> fst (fst y) = 0", OF _ assms])
     (auto split: prod.splits option.splits if_splits)

lemma Write_error_zero_aux:
  assumes "Write E b c s = Some y"
  shows "snd (fst y) \<noteq> None \<longrightarrow> fst (fst y) = 0"
  by (rule Write.raw_induct [where P = "\<lambda>E b c s y. snd (fst y) \<noteq> None \<longrightarrow> fst (fst y) = 0", OF _ assms])
     (auto split: prod.splits option.splits if_splits)

section \<open>Facts about construction\<close>

lemma newConn_WithOnConnected:
  "OnConnected (newConn conn (connOpts @ [WithOnConnected fn])) = fn"
  by (simp add: newConn_def WithOnConnected_def)

section \<open>Facts about the goroutines\<close>

lemma write_err_frame:
  "write_err e s = Some s1 \<Longrightarrow>
   pcs s1 = pcs s \<and> sh_wg s1 = sh_wg s \<and> owners s1 = owners s \<and> dial_log s1 = dial_log s
   \<and> returns s1 = returns s \<and> length (wgs s1) = length (wgs s)"
  by (auto simp: write_err_def split: option.splits if_splits)

lemma inv_own_goto:
  assumes "inv_own s" and "owning l = owning (pcs s t)"
  shows "inv_own (goto t l s)"
proof -
  have "owning (pcs (goto t l s) u) = owning (pcs s u)" for u
    using assms(2) by (simp add: goto_def)
  moreover have "sh_wg (goto t l s) = sh_wg s" "owners (goto t l s) = owners s"
    "wgs (goto t l s) = wgs s" "dial_log (goto t l s) = dial_log s"
    by (simp_all add: goto_def)
  ultimately show ?thesis using assms(1) by (auto simp: inv_own_def split: option.splits)
qed

lemma inv_own_write_err:
  assumes "inv_own s" and "write_err e s = Some s1"
  shows "inv_own s1"
  using assms(1) write_err_frame [OF assms(2)] by (auto simp: inv_own_def split: option.splits)

lemma inv_own_dial:
  assumes "inv_own s" and "owning (pcs s t)"
  shows "inv_own (s\<lparr>dial_log := dial_log s @ [(t, sh_wg s)]\<rparr>)"
proof (cases "sh_wg s")
  case None
  with assms show ?thesis by (auto simp: inv_own_def split: option.splits)
next
  case (Some p)
  with assms have "p < length (owners s)" "owners s ! p = t"
    by (auto simp: inv_own_def split: option.splits)
  with assms(1) Some show ?thesis by (auto simp: inv_own_def split: option.splits)
qed

lemma inv_own_publish:
  assumes "inv_own s" and "sh_wg s = None"
  shows "inv_own (goto t AtRemoteAddr
           (s\<lparr>sh_wg := Some (length (wgs s)), wgs := wgs s @ [g], owners := owners s @ [t]\<rparr>))"
proof -
  from assms have len: "length (owners s) = length (wgs s)" and none: "\<And>u. \<not> owning (pcs s u)"
    and dl: "\<forall>(t, q) \<in> set (dial_log s). \<exists>p. q = Some p \<and> p < length (owners s) \<and> owners s ! p = t"
    by (auto simp: inv_own_def split: option.splits)
  have "\<forall>(t', q) \<in> set (dial_log s).
          \<exists>p. q = Some p \<and> p < length (owners s @ [t]) \<and> (owners s @ [t]) ! p = t'"
    using dl by (fastforce simp: nth_append)
  then show ?thesis using len none
    by (auto simp: inv_own_def goto_def nth_append split: option.splits)
qed

lemma inv_own_unpublish:
  assumes "inv_own s" and "owning (pcs s t)"
  shows "inv_own (goto t (AtDone p) (s\<lparr>sh_wg := None\<rparr>))"
proof (cases "sh_wg s")
  case None
  with assms show ?thesis by (auto simp: inv_own_def split: option.splits)
next
  case (Some q)
  with assms have "\<And>u. owning (pcs s u) \<longleftrightarrow> u = t"
    by (auto simp: inv_own_def split: option.splits)
  with assms(1) show ?thesis by (auto simp: inv_own_def goto_def split: option.splits)
qed

lemma inv_own_step:
  assumes "inv_own s" and "step E ev s = Some s'"
  shows "inv_own s'"
proof (cases ev)
  case (Call t)
  with assms show ?thesis
    by (cases "pcs s t") (auto intro: inv_own_goto)
next
  case (Lock t)
  with assms show ?thesis
    by (cases "pcs s t"; cases "sh_wg s") (auto intro: inv_own_goto inv_own_publish)
next
  case (Wake t)
  with assms show ?thesis
    by (cases "pcs s t") (auto intro: inv_own_goto split: if_splits)
next
  case (ReturnErr t)
  have "inv_own (s\<lparr>returns := r\<rparr>)" for r
    using assms(1) by (auto simp: inv_own_def split: option.splits)
  with assms ReturnErr show ?thesis
    by (cases "pcs s t") (auto intro!: inv_own_goto split: if_splits)
next
  case (Addr t)
  with assms show ?thesis
    by (cases "pcs s t") (auto intro: inv_own_goto)
next
  case (Check t)
  with assms show ?thesis
    by (cases "pcs s t") (auto intro!: inv_own_goto dest: inv_own_write_err write_err_frame split: if_splits)
next
  case (Dialed t r)
  have "owning (pcs s t) \<Longrightarrow> inv_own (s\<lparr>dial_log := dial_log s @ [(t, sh_wg s)], sh_Conn := c\<rparr>)" for c
    using inv_own_dial [OF assms(1), of t] by (auto simp: inv_own_def split: option.splits)
  with assms Dialed inv_own_dial [OF assms(1), of t] show ?thesis
    by (cases "pcs s t"; cases r) (auto intro!: inv_own_goto)
next
  case (Timer t)
  with assms show ?thesis
    by (cases "pcs s t") (auto intro: inv_own_goto)
next
  case (Cancelled t)
  with assms show ?thesis
    by (cases "pcs s t") (auto intro!: inv_own_goto dest: inv_own_write_err write_err_frame split: if_splits)
next
  case (Hooked t r)
  with assms show ?thesis
    by (cases "pcs s t") (auto intro!: inv_own_goto dest: inv_own_write_err write_err_frame split: if_splits)
next
  case (Unpublish t)
  with assms show ?thesis
    by (cases "pcs s t"; cases "sh_wg s") (auto intro: inv_own_unpublish)
next
  case (Done t)
  have "inv_own (s\<lparr>wgs := (wgs s)[p := x], returns := r\<rparr>)" for p x r
    using assms(1) by (auto simp: inv_own_def split: option.splits)
  with assms Done show ?thesis
    by (cases "pcs s t") (auto intro!: inv_own_goto split: if_splits)
next
  case CloseCalled
  with assms show ?thesis
    by (auto simp: inv_own_def split: option.splits)
qed



lemma inv_ret_goto:
  assumes "inv_ret s" and "\<And>p. l \<noteq> AtDone p" and "\<And>p. l \<noteq> AtReturnErr p"
  shows "inv_ret (goto t l s)"
  using assms unfolding inv_ret_def goto_def
  by (auto split: if_splits)

lemma inv_ret_write_err:
  assumes "inv_ret s" and "write_err e s = Some s1"
  shows "inv_ret s1"
proof -
  from assms(2) obtain p where p: "sh_wg s = Some p" "p < length (wgs s)"
    and s1: "s1 = s\<lparr>wgs := (wgs s)[p := (wgs s ! p)\<lparr>err := e\<rparr>]\<rparr>"
    by (auto simp: write_err_def split: option.splits if_splits)
  from assms(1) p have c1: "counter (wgs s ! p) = 1"
    by (simp add: inv_ret_def)
  have nth: "counter ((wgs s)[p := (wgs s ! p)\<lparr>err := e\<rparr>] ! q) = counter (wgs s ! q)" for q
    by (cases "q = p") (use p in auto)
  have nth_err: "counter (wgs s ! q) = 0 \<Longrightarrow>
                 err ((wgs s)[p := (wgs s ! p)\<lparr>err := e\<rparr>] ! q) = err (wgs s ! q)" for q
    using c1 by (cases "q = p") auto
  show ?thesis
    using assms(1) unfolding inv_ret_def s1
    by (simp add: nth nth_err) (fastforce simp: nth_err)
qed

lemma inv_retI:
  assumes "\<And>p. sh_wg s = Some p \<Longrightarrow>
             p < length (wgs s) \<and> counter (wgs s ! p) = 1 \<and> (\<forall>t. pcs s t \<noteq> AtDone p)"
    and "\<And>t p. pcs s t = AtDone p \<Longrightarrow>
             p < length (wgs s) \<and> counter (wgs s ! p) = 1 \<and> (\<forall>u. pcs s u = AtDone p \<longrightarrow> u = t)"
    and "\<And>t p. pcs s t = AtReturnErr p \<Longrightarrow> p < length (wgs s) \<and> counter (wgs s ! p) = 0"
    and "\<And>t p e. (t, p, e) \<in> set (returns s) \<Longrightarrow>
             p < length (wgs s) \<and> counter (wgs s ! p) = 0 \<and> err (wgs s ! p) = e"
  shows "inv_ret s"
proof -
  have r: "\<forall>(t, p, e) \<in> set (returns s).
             p < length (wgs s) \<and> counter (wgs s ! p) = 0 \<and> err (wgs s ! p) = e"
  proof (intro ballI)
    fix x assume x: "x \<in> set (returns s)"
    obtain t p e where "x = (t, p, e)" by (cases x) auto
    with assms(4) [of t p e] x
    show "case x of (t, p, e) \<Rightarrow> p < length (wgs s) \<and> counter (wgs s ! p) = 0 \<and> err (wgs s ! p) = e"
      by simp
  qed
  show ?thesis
    unfolding inv_ret_def
    using assms(1) assms(2) assms(3) r by (intro conjI allI impI) blast+
qed

lemma inv_ret_wg:
  "inv_ret s \<Longrightarrow> sh_wg s = Some p \<Longrightarrow>
   p < length (wgs s) \<and> counter (wgs s ! p) = 1 \<and> (\<forall>t. pcs s t \<noteq> AtDone p)"
  unfolding inv_ret_def by blast

lemma inv_ret_AtDone:
  "inv_ret s \<Longrightarrow> pcs s t = AtDone p \<Longrightarrow>
   p < length (wgs s) \<and> counter (wgs s ! p) = 1 \<and> (\<forall>u. pcs s u = AtDone p \<longrightarrow> u = t)"
  unfolding inv_ret_def by blast

lemma inv_ret_AtReturnErr:
  "inv_ret s \<Longrightarrow> pcs s t = AtReturnErr p \<Longrightarrow> p < length (wgs s) \<and> counter (wgs s ! p) = 0"
  unfolding inv_ret_def by blast

lemma inv_ret_returns:
  "inv_ret s \<Longrightarrow> (t, p, e) \<in> set (returns s) \<Longrightarrow>
   p < length (wgs s) \<and> counter (wgs s ! p) = 0 \<and> err (wgs s ! p) = e"
  unfolding inv_ret_def by fastforce

lemma inv_ret_publish:
  assumes "inv_ret s" and "sh_wg s = None" and "counter g = 1"
  shows "inv_ret (goto t AtRemoteAddr
           (s\<lparr>sh_wg := Some (length (wgs s)), wgs := wgs s @ [g], owners := owners s @ [t]\<rparr>))"
    (is "inv_ret ?s'")
proof (rule inv_retI)
  fix p assume "sh_wg ?s' = Some p"
  then have p: "p = length (wgs s)" by (simp add: goto_def)
  have "pcs s u \<noteq> AtDone (length (wgs s))" for u
    using inv_ret_AtDone [OF assms(1), of u "length (wgs s)"] by auto
  then show "p < length (wgs ?s') \<and> counter (wgs ?s' ! p) = 1 \<and> (\<forall>u. pcs ?s' u \<noteq> AtDone p)"
    unfolding p using assms(3) by (simp add: goto_def)
next
  fix u p assume "pcs ?s' u = AtDone p"
  then have u: "pcs s u = AtDone p" "u \<noteq> t" by (auto simp: goto_def split: if_splits)
  from inv_ret_AtDone [OF assms(1) u(1)]
  show "p < length (wgs ?s') \<and> counter (wgs ?s' ! p) = 1 \<and> (\<forall>v. pcs ?s' v = AtDone p \<longrightarrow> v = u)"
    by (auto simp: goto_def nth_append)
next
  fix u p assume "pcs ?s' u = AtReturnErr p"
  then have u: "pcs s u = AtReturnErr p" by (auto simp: goto_def split: if_splits)
  from inv_ret_AtReturnErr [OF assms(1) u]
  show "p < length (wgs ?s') \<and> counter (wgs ?s' ! p) = 0"
    by (auto simp: goto_def nth_append)
next
  fix u p e assume "(u, p, e) \<in> set (returns ?s')"
  then have "(u, p, e) \<in> set (returns s)" by (simp add: goto_def)
  from inv_ret_returns [OF assms(1) this]
  show "p < length (wgs ?s') \<and> counter (wgs ?s' ! p) = 0 \<and> err (wgs ?s' ! p) = e"
    by (auto simp: goto_def nth_append)
qed

lemma inv_ret_wake:
  assumes "inv_ret s" and "p < length (wgs s)" and "counter (wgs s ! p) = 0"
  shows "inv_ret (goto t (AtReturnErr p) s)"
  using assms unfolding inv_ret_def goto_def
  by (auto split: if_splits)

lemma inv_ret_return:
  assumes "inv_ret s" and "pcs s t = AtReturnErr p"
  shows "inv_ret (goto t Idle (s\<lparr>returns := returns s @ [(t, p, err (wgs s ! p))]\<rparr>))"
  using assms unfolding inv_ret_def goto_def
  by (auto split: if_splits)

lemma inv_ret_unpublish:
  assumes "inv_ret s" and "sh_wg s = Some p"
  shows "inv_ret (goto t (AtDone p) (s\<lparr>sh_wg := None\<rparr>))"
  using assms unfolding inv_ret_def goto_def
  by (auto split: if_splits)

lemma inv_ret_done:
  assumes "inv_ret s" and "pcs s t = AtDone p"
  shows "inv_ret (goto t Idle
           (s\<lparr>wgs := (wgs s)[p := (wgs s ! p)\<lparr>counter := counter (wgs s ! p) - 1\<rparr>],
              returns := returns s @ [(t, p, err (wgs s ! p))]\<rparr>))"
    (is "inv_ret ?s'")
proof -
  from inv_ret_AtDone [OF assms] have p: "p < length (wgs s)" "counter (wgs s ! p) = 1"
    and uniq: "\<And>u. pcs s u = AtDone p \<Longrightarrow> u = t"
    by auto
  have cnt: "counter (wgs ?s' ! q) = (if q = p then 0 else counter (wgs s ! q))" for q
    using p by (cases "q = p") (auto simp: goto_def)
  have er: "err (wgs ?s' ! q) = err (wgs s ! q)" for q
    using p by (cases "q = p") (auto simp: goto_def)
  have len: "length (wgs ?s') = length (wgs s)" by (simp add: goto_def)
  show ?thesis
  proof (rule inv_retI)
    fix q assume "sh_wg ?s' = Some q"
    then have q: "sh_wg s = Some q" by (simp add: goto_def)
    from inv_ret_wg [OF assms(1) q] assms(2) have "q \<noteq> p" by auto
    with inv_ret_wg [OF assms(1) q]
    show "q < length (wgs ?s') \<and> counter (wgs ?s' ! q) = 1 \<and> (\<forall>u. pcs ?s' u \<noteq> AtDone q)"
      unfolding cnt len by (auto simp: goto_def)
  next
    fix u q assume "pcs ?s' u = AtDone q"
    then have u: "pcs s u = AtDone q" "u \<noteq> t" by (auto simp: goto_def split: if_splits)
    with uniq have "q \<noteq> p" by auto
    with inv_ret_AtDone [OF assms(1) u(1)]
    show "q < length (wgs ?s') \<and> counter (wgs ?s' ! q) = 1 \<and> (\<forall>v. pcs ?s' v = AtDone q \<longrightarrow> v = u)"
      unfolding cnt len by (auto simp: goto_def)
  next
    fix u q assume "pcs ?s' u = AtReturnErr q"
    then have u: "pcs s u = AtReturnErr q" by (auto simp: goto_def split: if_splits)
    from inv_ret_AtReturnErr [OF assms(1) u]
    show "q < length (wgs ?s') \<and> counter (wgs ?s' ! q) = 0"
      unfolding cnt len by auto
  next
    fix u q e assume "(u, q, e) \<in> set (returns ?s')"
    then consider "(u, q, e) \<in> set (returns s)" | "u = t" "q = p" "e = err (wgs s ! p)"
      by (auto simp: goto_def)
    then show "q < length (wgs ?s') \<and> counter (wgs ?s' ! q) = 0 \<and> err (wgs ?s' ! q) = e"
    proof cases
      case 1
      from inv_ret_returns [OF assms(1) 1] show ?thesis
        unfolding cnt len er by auto
    next
      case 2
      with p show ?thesis unfolding cnt len er by auto
    qed
  qed
qed

lemma inv_ret_fields [simp]:
  "inv_ret (s\<lparr>sh_Conn := c\<rparr>) = inv_ret s"
  "inv_ret (s\<lparr>sh_ctx_done := b\<rparr>) = inv_ret s"
  "inv_ret (s\<lparr>dial_log := d\<rparr>) = inv_ret s"
  by (simp_all add: inv_ret_def)

lemma inv_ret_init: "inv_ret (init conn hook)"
  by (simp add: inv_ret_def init_def)

lemma inv_ret_step:
  assumes "inv_ret s" and "step E ev s = Some s'"
  shows "inv_ret s'"
proof (cases ev)
  case (Call t)
  with assms show ?thesis
    by (cases "pcs s t") (auto intro: inv_ret_goto)
next
  case (Lock t)
  with assms show ?thesis
    by (cases "pcs s t"; cases "sh_wg s") (auto intro!: inv_ret_goto inv_ret_publish)
next
  case (Wake t)
  with assms show ?thesis
    by (cases "pcs s t") (auto intro: inv_ret_wake split: if_splits)
next
  case (ReturnErr t)
  with assms show ?thesis
    by (cases "pcs s t") (auto intro: inv_ret_return split: if_splits)
next
  case (Addr t)
  with assms show ?thesis
    by (cases "pcs s t") (auto intro: inv_ret_goto)
next
  case (Check t)
  with assms show ?thesis
    by (cases "pcs s t") (auto intro!: inv_ret_goto dest: inv_ret_write_err split: if_splits)
next
  case (Dialed t r)
  with assms show ?thesis
    by (cases "pcs s t"; cases r) (auto intro!: inv_ret_goto)
next
  case (Timer t)
  with assms show ?thesis
    by (cases "pcs s t") (auto intro: inv_ret_goto)
next
  case (Cancelled t)
  with assms show ?thesis
    by (cases "pcs s t") (auto intro!: inv_ret_goto dest: inv_ret_write_err split: if_splits)
next
  case (Hooked t r)
  with assms show ?thesis
    by (cases "pcs s t") (auto intro!: inv_ret_goto dest: inv_ret_write_err split: if_splits)
next
  case (Unpublish t)
  with assms show ?thesis
    by (cases "pcs s t"; cases "sh_wg s") (auto intro: inv_ret_unpublish)
next
  case (Done t)
  with assms show ?thesis
    by (cases "pcs s t") (auto intro: inv_ret_done simp del: One_nat_def split: if_splits)
next
  case CloseCalled
  with assms show ?thesis
    by auto
qed

lemma inv_own_init: "inv_own (init conn hook)"
  by (simp add: inv_own_def init_def)

lemma inv_run:
  "inv_own s \<Longrightarrow> inv_ret s \<Longrightarrow> run E evs s = Some s' \<Longrightarrow> inv_own s' \<and> inv_ret s'"
proof (induction evs arbitrary: s)
  case Nil
  then show ?case by simp
next
  case (Cons ev evs)
  from Cons.prems(3) obtain s1 where s1: "step E ev s = Some s1" and r: "run E evs s1 = Some s'"
    by (auto split: option.splits)
  from inv_own_step [OF Cons.prems(1) s1] inv_ret_step [OF Cons.prems(2) s1] r
  show ?case by (rule Cons.IH)
qed

section \<open>Retrying after a reconnection\<close>

text \<open>
  Claim C1, amended. Take a \<^verbatim>\<open>Read\<close> or \<^verbatim>\<open>Write\<close> whose transport call fails with a
  reconnect-worthy error. If \<^verbatim>\<open>reconnect\<close> returns an error, that error is returned with
  count 0 and nothing is retried. If \<^verbatim>\<open>reconnect\<close> returns nil, the result is that of
  calling \<^verbatim>\<open>Read\<close> (\<^verbatim>\<open>Write\<close>) again on the wrapper as the reconnection left it, and that
  call may reconnect and call itself again: nothing stops at one retry.
\<close>

theorem retry_is_a_recursive_call:
  assumes "reconnect_worthy e"
  shows "(conn_Read E (length (io_log s)) (Conn c) b = (n, Some e) \<longrightarrow>
            Read E b c s =
            (case reconnect E c (s\<lparr>io_log := io_log s @ [Conn c]\<rparr>) of
               None \<Rightarrow> None
             | Some (None, c1, s1) \<Rightarrow> Read E b c1 s1
             | Some (Some e1, c1, s1) \<Rightarrow> Some ((0, Some e1), c1, s1)))
       \<and> (conn_Write E (length (io_log s)) (Conn c) b = (n, Some e) \<longrightarrow>
            Write E b c s =
            (case reconnect E c (s\<lparr>io_log := io_log s @ [Conn c]\<rparr>) of
               None \<Rightarrow> None
             | Some (None, c1, s1) \<Rightarrow> Write E b c1 s1
             | Some (Some e1, c1, s1) \<Rightarrow> Some ((0, Some e1), c1, s1)))"
  using assms Read_worthy [of E s c b n e] Write_worthy [of E s c b n e] by blast

text \<open>
  Claim C1 as stated fails. The first two transport reads meet end of stream and every
  dial succeeds: one \<^verbatim>\<open>Read\<close> reconnects twice and calls the transport three times (on
  transports 0, 1 and 2), which is more than the original call and one retry.
\<close>

theorem retried_twice_counterexample:
  "Read env_two_drops ''abcd'' conn0 trace0
   = Some ((5, None), conn0\<lparr>Conn := 2\<rparr>, trace0\<lparr>dials := 2, opened := [1, 2], io_log := [0, 1, 2]\<rparr>)
   \<and> \<not> length (io_log (trace0\<lparr>dials := 2, opened := [1, 2], io_log := [0, 1, 2]\<rparr>)) \<le> 1 + 1"
  by (simp add: Read.simps reconnectIfNeeded_def reconnect_worthy_def reconnect_def
      reconnect_loop.simps ex_defs env_two_drops_def)

text \<open>The theorem at work: one end of stream, one reconnection, one retry.\<close>

theorem retry_is_a_recursive_call_witness:
  "Read env_drop_once ''abcd'' conn0 trace0
   = Some ((5, None), conn0\<lparr>Conn := 1\<rparr>, trace0\<lparr>dials := 1, opened := [1], io_log := [0, 1]\<rparr>)
   \<and> Write env_drop_once ''abcd'' conn0 trace0
   = Some ((5, None), conn0\<lparr>Conn := 1\<rparr>, trace0\<lparr>dials := 1, opened := [1], io_log := [0, 1]\<rparr>)
   \<and> reconnect_worthy EOF"
proof -
  have w: "reconnect_worthy EOF" by (simp add: reconnect_worthy_def)
  have rc: "reconnect env_drop_once conn0 (trace0\<lparr>io_log := io_log trace0 @ [Conn conn0]\<rparr>)
            = Some (None, conn0\<lparr>Conn := 1\<rparr>, trace0\<lparr>dials := 1, opened := [1], io_log := [0]\<rparr>)"
    by (simp add: reconnect_def reconnect_loop.simps ex_defs env_drop_once_def)
  have r2: "Read env_drop_once ''abcd'' (conn0\<lparr>Conn := 1\<rparr>) (trace0\<lparr>dials := 1, opened := [1], io_log := [0]\<rparr>)
            = Some ((5, None), conn0\<lparr>Conn := 1\<rparr>, trace0\<lparr>dials := 1, opened := [1], io_log := [0, 1]\<rparr>)"
    by (subst Read.simps) (simp add: reconnectIfNeeded_def ex_defs env_drop_once_def)
  have w2: "Write env_drop_once ''abcd'' (conn0\<lparr>Conn := 1\<rparr>) (trace0\<lparr>dials := 1, opened := [1], io_log := [0]\<rparr>)
            = Some ((5, None), conn0\<lparr>Conn := 1\<rparr>, trace0\<lparr>dials := 1, opened := [1], io_log := [0, 1]\<rparr>)"
    by (subst Write.simps) (simp add: reconnectIfNeeded_def ex_defs env_drop_once_def)
  have io: "conn_Read env_drop_once (length (io_log trace0)) (Conn conn0) ''abcd'' = (0, Some EOF)"
    "conn_Write env_drop_once (length (io_log trace0)) (Conn conn0) ''abcd'' = (0, Some EOF)"
    by (simp_all add: ex_defs env_drop_once_def)
  from retry_is_a_recursive_call [OF w, of env_drop_once trace0 conn0 "''abcd''" 0] io rc r2 w2 w
  show ?thesis
    by simp
qed

section \<open>Backoff\<close>

text \<open>
  Claim C2, amended. With \<^verbatim>\<open>maxReconnectTimeout\<close> at 60 seconds, when \<open>k\<close> dials in a row
  fail (and nobody closes the wrapper) before one succeeds, \<^verbatim>\<open>reconnect\<close> returns after
  \<open>k + 1\<close> dials and the timers it waited on were of \<open>min (2s * 2 ^ a) 60s\<close> for
  \<open>a = 0, ..., k - 1\<close>: 2s, 4s, 8s, 16s, 32s, 60s, 60s, ... The local \<^verbatim>\<open>timeout\<close> starts at
  one second and is doubled before the first wait.
\<close>

theorem backoff_timers_double_from_two_seconds:
  assumes "maxReconnectTimeout E = 60 * Second" and "wg c = None" and "\<not> ctx_done c"
    and "\<forall>i<k. isl (DialContext E (dials s + i) (RemoteAddr E (Conn c))) \<and> \<not> quit_fires E (dials s + i)"
    and "DialContext E (dials s + k) (RemoteAddr E (Conn c)) = Inr conn"
  shows "\<exists>r c1 s1. reconnect E c s = Some (r, c1, s1)
           \<and> dials s1 = dials s + k + 1
           \<and> timers s1 = timers s @ map (\<lambda>a. min (2 * Second * 2 ^ a) (60 * Second)) [0..<k]"
  using reconnect_connects [OF assms(2) assms(3) assms(4) assms(5)] timeouts_default [OF assms(1), of k]
  by simp

text \<open>
  Claim C2 as stated fails. The first dial fails and the second succeeds: the only timer
  is of two seconds, where the claim has \<open>min (1s * 2 ^ 0) 60s\<close>, one second.
\<close>

theorem first_backoff_is_two_seconds_counterexample:
  "reconnect env_dial_fails_once conn0 trace0
   = Some (None, conn0\<lparr>Conn := 2\<rparr>, trace0\<lparr>dials := 2, opened := [2], timers := [2000000000]\<rparr>)
   \<and> min (Second * 2 ^ 0) (60 * Second) = 1000000000"
  by (simp add: reconnect_def reconnect_loop.simps next_timeout_def wrap64_def Second_def ex_defs env_dial_fails_once_def)

text \<open>The theorem at work: seven failed dials, then a successful one.\<close>

theorem backoff_timers_double_from_two_seconds_witness:
  "reconnect env_dial_fails_7 conn0 trace0
   = Some (None, conn0\<lparr>Conn := 8\<rparr>,
           trace0\<lparr>dials := 8, opened := [8],
             timers := [2000000000, 4000000000, 8000000000, 16000000000, 32000000000,
                        60000000000, 60000000000]\<rparr>)"
proof -
  have m: "maxReconnectTimeout env_dial_fails_7 = 60 * Second"
    and w: "wg conn0 = None" and d: "\<not> ctx_done conn0"
    by (simp_all add: ex_defs env_dial_fails_7_def)
  have f: "\<forall>i<7. isl (DialContext env_dial_fails_7 (dials trace0 + i) (RemoteAddr env_dial_fails_7 (Conn conn0)))
                \<and> \<not> quit_fires env_dial_fails_7 (dials trace0 + i)"
    by (simp add: ex_defs env_dial_fails_7_def)
  have ok: "DialContext env_dial_fails_7 (dials trace0 + 7) (RemoteAddr env_dial_fails_7 (Conn conn0)) = Inr 8"
    by (simp add: ex_defs env_dial_fails_7_def)
  have up: "[0..<7] = [0, 1, 2, 3, 4, 5, 6]"
    by (simp add: upt_rec numeral_nat)
  from backoff_timers_double_from_two_seconds [OF m w d f ok]
  obtain r c1 s1 where r: "reconnect env_dial_fails_7 conn0 trace0 = Some (r, c1, s1)"
    and "dials s1 = dials trace0 + 7 + 1"
    and t: "timers s1 = timers trace0 @ map (\<lambda>a. min (2 * Second * 2 ^ a) (60 * Second)) [0..<7]"
    by blast
  have full: "reconnect env_dial_fails_7 conn0 trace0
     = Some (None, conn0\<lparr>Conn := 8\<rparr>,
             trace0\<lparr>dials := 8, opened := [8], timers := timeouts env_dial_fails_7 Second 7\<rparr>)"
    using reconnect_connects [OF w d f ok] by (simp add: ex_defs env_dial_fails_7_def)
  from r full have "timers s1 = timeouts env_dial_fails_7 Second 7"
    by auto
  with t have "timeouts env_dial_fails_7 Second 7
      = [2000000000, 4000000000, 8000000000, 16000000000, 32000000000, 60000000000, 60000000000]"
    by (simp add: up Second_def trace0_def)
  with full show ?thesis by simp
qed

section \<open>One reconnect operation at a time\<close>

text \<open>
  Claim C3, amended. In every state that goroutines calling \<^verbatim>\<open>reconnect\<close> on one wrapper
  can reach, in whatever order their steps interleave:
  \<^item> at most one goroutine is between publishing \<^verbatim>\<open>c.wg\<close> and clearing it, that is at
    most one runs the dial loop;
  \<^item> a goroutine that takes the lock while \<^verbatim>\<open>c.wg\<close> points to a wait group goes to
    \<^verbatim>\<open>wg.Wait()\<close> on that wait group and changes nothing else, and cannot wake while that
    wait group is still published;
  \<^item> every dial was made by the goroutine that allocated the wait group published at
    that moment, so the callers that wait on one operation see one dial sequence;
  \<^item> every return of \<^verbatim>\<open>reconnect\<close> gave the error held by the caller's wait group, so
    two callers of the same operation returned the same error.
  Callers that fail at the same moment are callers of the same operation only if each
  takes the lock while that operation is published.
\<close>

theorem one_reconnect_operation_at_a_time:
  assumes "run E evs (init conn hook) = Some s"
  shows "(\<forall>t u. owning (pcs s t) \<and> owning (pcs s u) \<longrightarrow> t = u)
       \<and> (\<forall>t p. pcs s t = AtLock \<and> sh_wg s = Some p \<longrightarrow>
             step E (Lock t) s = Some (goto t (AtWait p) s))
       \<and> (\<forall>t p. pcs s t = AtWait p \<and> sh_wg s = Some p \<longrightarrow> step E (Wake t) s = None)
       \<and> (\<forall>(t, q) \<in> set (dial_log s). \<exists>p. q = Some p \<and> p < length (owners s) \<and> owners s ! p = t)
       \<and> (\<forall>(t, p, e) \<in> set (returns s). p < length (wgs s) \<and> err (wgs s ! p) = e)
       \<and> (\<forall>(t, p, e) \<in> set (returns s). \<forall>(t', p', e') \<in> set (returns s). p = p' \<longrightarrow> e = e')"
proof -
  from inv_run [OF inv_own_init inv_ret_init assms]
  have own: "inv_own s" and ret: "inv_ret s" by simp_all
  have a: "\<forall>t u. owning (pcs s t) \<and> owning (pcs s u) \<longrightarrow> t = u"
    using own by (auto simp: inv_own_def split: option.splits)
  have b: "\<forall>t p. pcs s t = AtLock \<and> sh_wg s = Some p \<longrightarrow>
             step E (Lock t) s = Some (goto t (AtWait p) s)"
    by simp
  have w: "step E (Wake t) s = None" if "pcs s t = AtWait p" "sh_wg s = Some p" for t p
    using inv_ret_wg [OF ret that(2)] that(1) by simp
  have c: "\<forall>(t, q) \<in> set (dial_log s). \<exists>p. q = Some p \<and> p < length (owners s) \<and> owners s ! p = t"
    using own unfolding inv_own_def by blast
  have d: "p < length (wgs s) \<and> err (wgs s ! p) = e" if "(t, p, e) \<in> set (returns s)" for t p e
    using inv_ret_returns [OF ret that] by simp
  have e: "e = e'" if "(t, p, e) \<in> set (returns s)" "(t', p, e') \<in> set (returns s)" for t t' p e e'
    using d [OF that(1)] d [OF that(2)] by simp
  from w have w': "\<forall>t p. pcs s t = AtWait p \<and> sh_wg s = Some p \<longrightarrow> step E (Wake t) s = None"
    by blast
  from d have d': "\<forall>(t, p, e) \<in> set (returns s). p < length (wgs s) \<and> err (wgs s ! p) = e"
    by blast
  from e have e': "\<forall>(t, p, e) \<in> set (returns s). \<forall>(t', p', e') \<in> set (returns s). p = p' \<longrightarrow> e = e'"
    by blast
  show ?thesis by (intro conjI a b w' c d' e')
qed

text \<open>
  Claim C3 as stated fails. In \<open>late_run\<close> both goroutines call \<^verbatim>\<open>reconnect\<close> before either
  takes the lock, and goroutine 1 takes it after goroutine 0 has cleared \<^verbatim>\<open>c.wg\<close>. Two
  dial sequences are seen for the two failures, one by each goroutine on a wait group of
  its own, and the two callers return different outcomes: the hook's error and nil.
\<close>

theorem late_caller_dials_again_counterexample:
  "map_option dial_log (run env_temporary late_run (init 0 True))
     = Some [(0, Some 0), (1, Some 1)]
   \<and> map_option returns (run env_temporary late_run (init 0 True))
     = Some [(0, 0, Some (PlainError 9)), (1, 1, None)]
   \<and> map_option owners (run env_temporary late_run (init 0 True)) = Some [0, 1]"
  by (simp add: late_run_def init_def goto_def write_err_def)

text \<open>The theorem at work on \<open>demo_run\<close>: both goroutines return the hook's error, and
  both dials are goroutine 0's.\<close>

theorem one_reconnect_operation_at_a_time_witness:
  "map_option returns (run env_temporary demo_run (init 0 True))
     = Some [(0, 0, Some (PlainError 9)), (1, 0, Some (PlainError 9))]
   \<and> map_option dial_log (run env_temporary demo_run (init 0 True))
     = Some [(0, Some 0), (0, Some 0)]
   \<and> map_option owners (run env_temporary demo_run (init 0 True)) = Some [0]
   \<and> map_option sh_Conn (run env_temporary demo_run (init 0 True)) = Some 5"
proof -
  have "\<exists>s. run env_temporary demo_run (init 0 True) = Some s
          \<and> returns s = [(0, 0, Some (PlainError 9)), (1, 0, Some (PlainError 9))]
          \<and> dial_log s = [(0, Some 0), (0, Some 0)] \<and> owners s = [0] \<and> sh_Conn s = 5"
    by (simp add: demo_run_def init_def goto_def write_err_def)
  then obtain s where r: "run env_temporary demo_run (init 0 True) = Some s"
    and obs: "returns s = [(0, 0, Some (PlainError 9)), (1, 0, Some (PlainError 9))]"
      "dial_log s = [(0, Some 0), (0, Some 0)]" "owners s = [0]" "sh_Conn s = 5"
    by blast
  from one_reconnect_operation_at_a_time [OF r]
  have "\<forall>(t, p, e) \<in> set (returns s). \<forall>(t', p', e') \<in> set (returns s). p = p' \<longrightarrow> e = e'"
    by (elim conjE) assumption
  with r obs show ?thesis by simp
qed

section \<open>A hook that fails after a successful dial\<close>

text \<open>
  Claim C4. \<^verbatim>\<open>reconnect\<close> is entered with no operation in flight and the wrapper not
  closed; \<open>k\<close> dials fail, the next returns \<open>conn\<close>, and the hook then returns the error
  \<open>e\<close>. Then \<^verbatim>\<open>reconnect\<close> returns \<open>e\<close>, the wrapper's transport is \<open>conn\<close>, exactly
  \<open>k + 1\<close> dials were made (none after the successful one), the hook ran once on \<open>conn\<close>
  and nothing was closed. The \<^verbatim>\<open>Read\<close> or \<^verbatim>\<open>Write\<close> that triggered the reconnection returns
  \<open>e\<close> with count 0, and a later \<^verbatim>\<open>Read\<close> or \<^verbatim>\<open>Write\<close> goes to \<open>conn\<close>: if the transport
  call succeeds there, so does the call.
\<close>

theorem hook_failure_keeps_new_transport:
  assumes "wg c = None" and "\<not> ctx_done c"
    and "\<forall>i<k. isl (DialContext E (dials s + i) (RemoteAddr E (Conn c))) \<and> \<not> quit_fires E (dials s + i)"
    and "DialContext E (dials s + k) (RemoteAddr E (Conn c)) = Inr conn"
    and "OnConnected c = Some h" and "h (length (hook_calls s)) conn = Some e"
  shows "\<exists>s1. reconnect E c s = Some (Some e, c\<lparr>Conn := conn\<rparr>, s1)
           \<and> dials s1 = dials s + k + 1
           \<and> hook_calls s1 = hook_calls s @ [conn]
           \<and> closed s1 = closed s
           \<and> (conn_Read E (length (io_log s1)) conn b = (n, None) \<longrightarrow>
                Read E b (c\<lparr>Conn := conn\<rparr>) s1
                = Some ((n, None), c\<lparr>Conn := conn\<rparr>, s1\<lparr>io_log := io_log s1 @ [conn]\<rparr>))
           \<and> (conn_Write E (length (io_log s1)) conn b = (n, None) \<longrightarrow>
                Write E b (c\<lparr>Conn := conn\<rparr>) s1
                = Some ((n, None), c\<lparr>Conn := conn\<rparr>, s1\<lparr>io_log := io_log s1 @ [conn]\<rparr>))
           \<and> (s = s0\<lparr>io_log := io_log s0 @ [Conn c]\<rparr> \<and> reconnect_worthy e0
                \<and> conn_Read E (length (io_log s0)) (Conn c) b0 = (n0, Some e0) \<longrightarrow>
                Read E b0 c s0 = Some ((0, Some e), c\<lparr>Conn := conn\<rparr>, s1))
           \<and> (s = s0\<lparr>io_log := io_log s0 @ [Conn c]\<rparr> \<and> reconnect_worthy e0
                \<and> conn_Write E (length (io_log s0)) (Conn c) b0 = (n0, Some e0) \<longrightarrow>
                Write E b0 c s0 = Some ((0, Some e), c\<lparr>Conn := conn\<rparr>, s1))"
proof -
  let ?s1 = "s\<lparr>dials := dials s + k + 1, opened := opened s @ [conn],
               timers := timers s @ timeouts E Second k, hook_calls := hook_calls s @ [conn]\<rparr>"
  have r: "reconnect E c s = Some (Some e, c\<lparr>Conn := conn\<rparr>, ?s1)"
    using reconnect_connects [OF assms(1) assms(2) assms(3) assms(4)] assms(5) assms(6) by simp
  have rd: "Read E b (c\<lparr>Conn := conn\<rparr>) ?s1
            = Some ((n, None), c\<lparr>Conn := conn\<rparr>, ?s1\<lparr>io_log := io_log ?s1 @ [conn]\<rparr>)"
    if "conn_Read E (length (io_log ?s1)) conn b = (n, None)"
    using Read_nil [of E ?s1 "c\<lparr>Conn := conn\<rparr>" b n] that by simp
  have wr: "Write E b (c\<lparr>Conn := conn\<rparr>) ?s1
            = Some ((n, None), c\<lparr>Conn := conn\<rparr>, ?s1\<lparr>io_log := io_log ?s1 @ [conn]\<rparr>)"
    if "conn_Write E (length (io_log ?s1)) conn b = (n, None)"
    using Write_nil [of E ?s1 "c\<lparr>Conn := conn\<rparr>" b n] that by simp
  have tr: "Read E b0 c s0 = Some ((0, Some e), c\<lparr>Conn := conn\<rparr>, ?s1)"
    if "s = s0\<lparr>io_log := io_log s0 @ [Conn c]\<rparr>" "reconnect_worthy e0"
      "conn_Read E (length (io_log s0)) (Conn c) b0 = (n0, Some e0)"
    using Read_worthy [OF that(3) that(2)] r that(1) by simp
  have tw: "Write E b0 c s0 = Some ((0, Some e), c\<lparr>Conn := conn\<rparr>, ?s1)"
    if "s = s0\<lparr>io_log := io_log s0 @ [Conn c]\<rparr>" "reconnect_worthy e0"
      "conn_Write E (length (io_log s0)) (Conn c) b0 = (n0, Some e0)"
    using Write_worthy [OF that(3) that(2)] r that(1) by simp
  show ?thesis
    by (rule exI [of _ ?s1]) (use r rd wr tr tw in simp)
qed

text \<open>The theorem at work: the first dial fails, the second returns transport 2, the hook
  fails; the read that triggered it returns the hook's error, the next read gets 5 bytes from
  transport 2.\<close>

theorem hook_failure_keeps_new_transport_witness:
  "Read env_hook_demo ''abcd'' conn_hooked trace0
   = Some ((0, Some (PlainError 9)), conn_hooked\<lparr>Conn := 2\<rparr>,
           trace0\<lparr>dials := 2, opened := [2], io_log := [0], timers := [2000000000],
             hook_calls := [2]\<rparr>)
   \<and> Read env_hook_demo ''abcd'' (conn_hooked\<lparr>Conn := 2\<rparr>)
       (trace0\<lparr>dials := 2, opened := [2], io_log := [0], timers := [2000000000],
          hook_calls := [2]\<rparr>)
   = Some ((5, None), conn_hooked\<lparr>Conn := 2\<rparr>,
           trace0\<lparr>dials := 2, opened := [2], io_log := [0, 2], timers := [2000000000],
             hook_calls := [2]\<rparr>)"
proof -
  let ?E = env_hook_demo
  let ?s = "trace0\<lparr>io_log := io_log trace0 @ [Conn conn_hooked]\<rparr>"
  let ?s1 = "trace0\<lparr>dials := 2, opened := [2], io_log := [0], timers := [2000000000],
               hook_calls := [2]\<rparr>"
  have a: "wg conn_hooked = None" "\<not> ctx_done conn_hooked"
    "OnConnected conn_hooked = Some hook_fails"
    "hook_fails (length (hook_calls ?s)) 2 = Some (PlainError 9)"
    by (simp_all add: ex_defs hook_fails_def env_hook_demo_def conn_hooked_def)
  have f: "\<forall>i<1. isl (DialContext ?E (dials ?s + i) (RemoteAddr ?E (Conn conn_hooked)))
                \<and> \<not> quit_fires ?E (dials ?s + i)"
    by (simp add: ex_defs hook_fails_def env_hook_demo_def conn_hooked_def)
  have ok: "DialContext ?E (dials ?s + 1) (RemoteAddr ?E (Conn conn_hooked)) = Inr 2"
    by (simp add: ex_defs hook_fails_def env_hook_demo_def conn_hooked_def)
  have w: "reconnect_worthy EOF" by (simp add: reconnect_worthy_def)
  have rd: "conn_Read ?E (length (io_log trace0)) (Conn conn_hooked) ''abcd'' = (0, Some EOF)"
    by (simp add: ex_defs hook_fails_def env_hook_demo_def conn_hooked_def)
  have r: "reconnect ?E conn_hooked ?s = Some (Some (PlainError 9), conn_hooked\<lparr>Conn := 2\<rparr>, ?s1)"
    using reconnect_connects [OF a(1) a(2) f ok] a(3)
    by (simp add: next_timeout_def wrap64_def Second_def ex_defs hook_fails_def env_hook_demo_def conn_hooked_def)
  from hook_failure_keeps_new_transport [OF a(1) a(2) f ok a(3) a(4),
      of "''abcd''" 5 trace0 EOF "''abcd''" 0]
  obtain s1 where s1: "reconnect ?E conn_hooked ?s = Some (Some (PlainError 9), conn_hooked\<lparr>Conn := 2\<rparr>, s1)"
    and later: "conn_Read ?E (length (io_log s1)) 2 ''abcd'' = (5, None) \<longrightarrow>
       Read ?E ''abcd'' (conn_hooked\<lparr>Conn := 2\<rparr>) s1
       = Some ((5, None), conn_hooked\<lparr>Conn := 2\<rparr>, s1\<lparr>io_log := io_log s1 @ [2]\<rparr>)"
    and trig: "?s = trace0\<lparr>io_log := io_log trace0 @ [Conn conn_hooked]\<rparr> \<and> reconnect_worthy EOF
       \<and> conn_Read ?E (length (io_log trace0)) (Conn conn_hooked) ''abcd'' = (0, Some EOF) \<longrightarrow>
       Read ?E ''abcd'' conn_hooked trace0 = Some ((0, Some (PlainError 9)), conn_hooked\<lparr>Conn := 2\<rparr>, s1)"
    by blast
  from s1 r have eq: "s1 = ?s1" by simp
  have "conn_Read ?E (length (io_log ?s1)) 2 ''abcd'' = (5, None)"
    by (simp add: ex_defs hook_fails_def env_hook_demo_def conn_hooked_def)
  with later trig w rd show ?thesis
    unfolding eq by simp
qed

section \<open>Temporary errors\<close>

text \<open>
  Claim C5. A \<^verbatim>\<open>Read\<close> or \<^verbatim>\<open>Write\<close> whose transport call fails with an error that is a
  \<^verbatim>\<open>net.Error\<close> marked temporary, and is not end of stream, returns that same error at
  once. The wrapper is left as it was and the trace grows by the one transport call only:
  no dial is made.
\<close>

theorem temporary_error_passthrough:
  assumes "errors_As_net e = Some ne" and "Temporary ne" and "e \<noteq> EOF"
  shows "(conn_Read E (length (io_log s)) (Conn c) b = (n, Some e) \<longrightarrow>
            Read E b c s = Some ((0, Some e), c, s\<lparr>io_log := io_log s @ [Conn c]\<rparr>))
       \<and> (conn_Write E (length (io_log s)) (Conn c) b = (n, Some e) \<longrightarrow>
            Write E b c s = Some ((0, Some e), c, s\<lparr>io_log := io_log s @ [Conn c]\<rparr>))"
proof -
  from assms have "\<not> reconnect_worthy e" by (simp add: reconnect_worthy_def)
  then show ?thesis by (simp add: Read_pass Write_pass)
qed

text \<open>The theorem at work on a transport that fails with a temporary error.\<close>

theorem temporary_error_passthrough_witness:
  "Read env_temporary ''abcd'' conn0 trace0
     = Some ((0, Some (Net (NetErr True 1))), conn0, trace0\<lparr>io_log := [0]\<rparr>)
   \<and> Write env_temporary ''abcd'' conn0 trace0
     = Some ((0, Some (Net (NetErr True 1))), conn0, trace0\<lparr>io_log := [0]\<rparr>)
   \<and> dials (trace0\<lparr>io_log := [0]\<rparr>) = 0"
  using temporary_error_passthrough [of "Net (NetErr True 1)" "NetErr True 1" env_temporary trace0 conn0 "''abcd''" 3]
  by (simp add: ex_defs env_temporary_def)

section \<open>After Close\<close>




section \<open>Construction and its hook\<close>

text \<open>
  Claim C7. \<^verbatim>\<open>DialAutoReconnectContext\<close> dials once. The hook given by a last
  \<^verbatim>\<open>WithOnConnected\<close> option is the wrapper's hook. When the dial succeeds and the wrapper
  has a hook, the hook is called exactly once, on the transport just dialed; if it returns
  an error, that error is returned and no wrapper; if it returns nil, the wrapper is
  returned. With no hook the wrapper is returned and no hook call is made. When the dial
  fails its error is returned and nothing else happens.
\<close>

theorem Dial_calls_hook_once:
  "dials (snd (DialAutoReconnectContext E network address connOpts s)) = dials s + 1
   \<and> OnConnected (newConn conn (connOpts @ [WithOnConnected fn])) = fn
   \<and> (DialContext E (dials s) (network, address) = Inr conn
        \<and> OnConnected (newConn conn connOpts) = Some h \<longrightarrow>
          hook_calls (snd (DialAutoReconnectContext E network address connOpts s))
          = hook_calls s @ [conn]
        \<and> (\<forall>e. h (length (hook_calls s)) conn = Some e \<longrightarrow>
              fst (DialAutoReconnectContext E network address connOpts s) = Inl e)
        \<and> (h (length (hook_calls s)) conn = None \<longrightarrow>
              fst (DialAutoReconnectContext E network address connOpts s)
              = Inr (newConn conn connOpts)))
   \<and> (DialContext E (dials s) (network, address) = Inr conn
        \<and> OnConnected (newConn conn connOpts) = None \<longrightarrow>
          hook_calls (snd (DialAutoReconnectContext E network address connOpts s)) = hook_calls s
        \<and> fst (DialAutoReconnectContext E network address connOpts s)
          = Inr (newConn conn connOpts))
   \<and> (\<forall>e. DialContext E (dials s) (network, address) = Inl e \<longrightarrow>
          DialAutoReconnectContext E network address connOpts s
          = (Inl e, s\<lparr>dials := dials s + 1\<rparr>))"
  by (auto simp: DialAutoReconnectContext_def Let_def newConn_WithOnConnected
      split: sum.splits option.splits)

text \<open>The theorem at work: construction with a hook that fails.\<close>

theorem Dial_calls_hook_once_witness:
  "DialAutoReconnectContext env_temporary ''tcp'' ''localhost:6606'' [WithOnConnected (Some hook_fails)] trace0
   = (Inl (PlainError 9), trace0\<lparr>dials := 1, opened := [1], hook_calls := [1]\<rparr>)"
proof -
  let ?D = "DialAutoReconnectContext env_temporary ''tcp'' ''localhost:6606''
              [WithOnConnected (Some hook_fails)] trace0"
  have d: "DialContext env_temporary (dials trace0) (''tcp'', ''localhost:6606'') = Inr 1"
    by (simp add: ex_defs env_temporary_def hook_fails_def)
  have h: "OnConnected (newConn 1 [WithOnConnected (Some hook_fails)]) = Some hook_fails"
    by (simp add: newConn_def WithOnConnected_def)
  have e: "hook_fails (length (hook_calls trace0)) 1 = Some (PlainError 9)"
    by (simp add: hook_fails_def)
  from Dial_calls_hook_once [of env_temporary "''tcp''" "''localhost:6606''"
      "[WithOnConnected (Some hook_fails)]" trace0 1 None hook_fails] d h e
  have "dials (snd ?D) = 1" "hook_calls (snd ?D) = [1]" "fst ?D = Inl (PlainError 9)"
    by (simp_all add: trace0_def)
  moreover have "opened (snd ?D) = [1]" "io_log (snd ?D) = []" "timers (snd ?D) = []"
    "closed (snd ?D) = []" "waits (snd ?D) = 0"
    by (simp_all add: DialAutoReconnectContext_def Let_def newConn_def WithOnConnected_def ex_defs env_temporary_def hook_fails_def)
  ultimately show ?thesis
    by (cases ?D) (simp add: trace0_def)
qed

section \<open>Errors come with a zero count\<close>

text \<open>
  Claim C8. Whenever \<^verbatim>\<open>Read\<close> or \<^verbatim>\<open>Write\<close> returns an error that is not nil, the byte
  count it returns is 0, whatever count the transport reported with its error.
\<close>

theorem error_return_has_zero_count:
  "(Read E b c s = Some ((n, Some e), c', s') \<longrightarrow> n = 0)
 \<and> (Write E b c s = Some ((n, Some e), c', s') \<longrightarrow> n = 0)"
  using Read_error_zero_aux [of E b c s "((n, Some e), c', s')"]
        Write_error_zero_aux [of E b c s "((n, Some e), c', s')"]
  by simp

text \<open>The theorem at work: the transport reports 3 bytes together with a temporary error,
  the call returns 0 with that error.\<close>

theorem error_return_has_zero_count_witness:
  "Read env_temporary ''abcd'' conn0 trace0
     = Some ((0, Some (Net (NetErr True 1))), conn0, trace0\<lparr>io_log := [0]\<rparr>)
   \<and> conn_Read env_temporary 0 0 ''abcd'' = (3, Some (Net (NetErr True 1)))
   \<and> Write env_temporary ''abcd'' conn0 trace0
     = Some ((0, Some (Net (NetErr True 1))), conn0, trace0\<lparr>io_log := [0]\<rparr>)"
proof -
  have nw: "\<not> reconnect_worthy (Net (NetErr True 1))"
    by (simp add: reconnect_worthy_def)
  have r: "conn_Read env_temporary (length (io_log trace0)) (Conn conn0) ''abcd'' = (3, Some (Net (NetErr True 1)))"
    and w: "conn_Write env_temporary (length (io_log trace0)) (Conn conn0) ''abcd'' = (3, Some (Net (NetErr True 1)))"
    by (simp_all add: ex_defs env_temporary_def)
  obtain n where n: "Read env_temporary ''abcd'' conn0 trace0
      = Some ((n, Some (Net (NetErr True 1))), conn0, trace0\<lparr>io_log := [0]\<rparr>)"
    using Read_pass [OF r nw] by (simp add: ex_defs env_temporary_def)
  obtain m where m: "Write env_temporary ''abcd'' conn0 trace0
      = Some ((m, Some (Net (NetErr True 1))), conn0, trace0\<lparr>io_log := [0]\<rparr>)"
    using Write_pass [OF w nw] by (simp add: ex_defs env_temporary_def)
  from error_return_has_zero_count [of env_temporary "''abcd''" conn0 trace0 n "Net (NetErr True 1)" conn0
      "trace0\<lparr>io_log := [0]\<rparr>"] n
  have "n = 0" by simp
  moreover
  from error_return_has_zero_count [of env_temporary "''abcd''" conn0 trace0 m "Net (NetErr True 1)" conn0
      "trace0\<lparr>io_log := [0]\<rparr>"] m
  have "m = 0" by simp
  ultimately show ?thesis using n m r by (simp add: ex_defs env_temporary_def)
qed

section \<open>Errors that are neither end of stream nor transport errors\<close>

text \<open>
  Claim C9. An error that is neither \<^verbatim>\<open>io.EOF\<close> nor, anywhere in its chain, a
  \<^verbatim>\<open>net.Error\<close> is handed back by \<^verbatim>\<open>reconnectIfNeeded\<close> with \<^verbatim>\<open>false\<close>, wrapper and
  trace untouched, and \<^verbatim>\<open>Read\<close> and \<^verbatim>\<open>Write\<close> return it as it is without dialing.
  Whenever \<^verbatim>\<open>reconnectIfNeeded\<close> does anything else with an error, the error is
  \<^verbatim>\<open>io.EOF\<close> or matches \<^verbatim>\<open>net.Error\<close> with \<^verbatim>\<open>Temporary()\<close> false.
\<close>

theorem other_errors_returned_as_is:
  "(e \<noteq> EOF \<and> errors_As_net e = None \<longrightarrow>
      reconnectIfNeeded E (Some e) c s = Some ((False, Some e), c, s)
    \<and> (conn_Read E (length (io_log s)) (Conn c) b = (n, Some e) \<longrightarrow>
          Read E b c s = Some ((0, Some e), c, s\<lparr>io_log := io_log s @ [Conn c]\<rparr>))
    \<and> (conn_Write E (length (io_log s)) (Conn c) b = (n, Some e) \<longrightarrow>
          Write E b c s = Some ((0, Some e), c, s\<lparr>io_log := io_log s @ [Conn c]\<rparr>)))
 \<and> (reconnectIfNeeded E (Some e) c s \<noteq> Some ((False, Some e), c, s) \<longrightarrow>
      e = EOF \<or> (\<exists>netErr. errors_As_net e = Some netErr \<and> \<not> Temporary netErr))"
proof -
  have a: "\<not> reconnect_worthy e" if "e \<noteq> EOF" "errors_As_net e = None"
    using that by (simp add: reconnect_worthy_def)
  have b: "e = EOF \<or> (\<exists>netErr. errors_As_net e = Some netErr \<and> \<not> Temporary netErr)"
    if "reconnect_worthy e"
    using that by (auto simp: reconnect_worthy_def split: option.splits)
  have c: "reconnect_worthy e"
    if "reconnectIfNeeded E (Some e) c s \<noteq> Some ((False, Some e), c, s)"
    using that reconnectIfNeeded_pass [of e E c s] by blast
  show ?thesis
  proof (intro conjI impI)
    assume h: "e \<noteq> EOF \<and> errors_As_net e = None"
    then show "reconnectIfNeeded E (Some e) c s = Some ((False, Some e), c, s)"
      by (simp add: a reconnectIfNeeded_pass)
    show "Read E b c s = Some ((0, Some e), c, s\<lparr>io_log := io_log s @ [Conn c]\<rparr>)"
      if "conn_Read E (length (io_log s)) (Conn c) b = (n, Some e)"
      using that h by (simp add: a Read_pass)
    show "Write E b c s = Some ((0, Some e), c, s\<lparr>io_log := io_log s @ [Conn c]\<rparr>)"
      if "conn_Write E (length (io_log s)) (Conn c) b = (n, Some e)"
      using that h by (simp add: a Write_pass)
  next
    assume "reconnectIfNeeded E (Some e) c s \<noteq> Some ((False, Some e), c, s)"
    then show "e = EOF \<or> (\<exists>netErr. errors_As_net e = Some netErr \<and> \<not> Temporary netErr)"
      by (rule b [OF c])
  qed
qed

text \<open>The theorem at work: an error that wraps a plain error is returned as it is, and
  \<^verbatim>\<open>io.EOF\<close> reconnects.\<close>

theorem other_errors_returned_as_is_witness:
  "reconnectIfNeeded env_wrapped (Some (Wrapped 1 (PlainError 2))) conn0 trace0
     = Some ((False, Some (Wrapped 1 (PlainError 2))), conn0, trace0)
   \<and> Read env_wrapped ''abcd'' conn0 trace0
     = Some ((0, Some (Wrapped 1 (PlainError 2))), conn0, trace0\<lparr>io_log := [0]\<rparr>)
   \<and> Write env_wrapped ''abcd'' conn0 trace0
     = Some ((0, Some (Wrapped 1 (PlainError 2))), conn0, trace0\<lparr>io_log := [0]\<rparr>)
   \<and> reconnectIfNeeded env_wrapped (Some EOF) conn0 trace0
     = Some ((True, None), conn0\<lparr>Conn := 1\<rparr>, trace0\<lparr>dials := 1, opened := [1]\<rparr>)"
proof -
  have r: "reconnectIfNeeded env_wrapped (Some EOF) conn0 trace0
     = Some ((True, None), conn0\<lparr>Conn := 1\<rparr>, trace0\<lparr>dials := 1, opened := [1]\<rparr>)"
    by (simp add: reconnectIfNeeded_def reconnect_worthy_def reconnect_def reconnect_loop.simps
        ex_defs env_wrapped_def)
  then have "reconnectIfNeeded env_wrapped (Some EOF) conn0 trace0 \<noteq> Some ((False, Some EOF), conn0, trace0)"
    by simp
  with other_errors_returned_as_is [of EOF env_wrapped conn0 trace0 "''abcd''" 3]
  have "EOF = EOF \<or> (\<exists>netErr. errors_As_net EOF = Some netErr \<and> \<not> Temporary netErr)"
    by blast
  with other_errors_returned_as_is [of "Wrapped 1 (PlainError 2)" env_wrapped conn0 trace0 "''abcd''" 3] r
  show ?thesis
    by (simp add: ex_defs env_wrapped_def)
qed

section \<open>A failed construction leaves its transport open\<close>

text \<open>
  Claim C10. When the dial of \<^verbatim>\<open>DialAutoReconnectContext\<close> succeeds and the hook returns an
  error, that error is returned, the transport just dialed is among the opened ones, and
  the function closed nothing.
\<close>

theorem Dial_hook_failure_leaves_transport_open:
  assumes "DialContext E (dials s) (network, address) = Inr conn"
    and "OnConnected (newConn conn connOpts) = Some h"
    and "h (length (hook_calls s)) conn = Some e"
  shows "fst (DialAutoReconnectContext E network address connOpts s) = Inl e
       \<and> opened (snd (DialAutoReconnectContext E network address connOpts s)) = opened s @ [conn]
       \<and> closed (snd (DialAutoReconnectContext E network address connOpts s)) = closed s"
  using assms by (simp add: DialAutoReconnectContext_def Let_def)

text \<open>The theorem at work: construction with a hook that fails.\<close>

theorem Dial_hook_failure_leaves_transport_open_witness:
  "fst (DialAutoReconnectContext env_temporary ''tcp'' ''localhost:6606''
          [WithOnConnected (Some hook_fails)] trace0) = Inl (PlainError 9)
   \<and> opened (snd (DialAutoReconnectContext env_temporary ''tcp'' ''localhost:6606''
          [WithOnConnected (Some hook_fails)] trace0)) = [1]
   \<and> closed (snd (DialAutoReconnectContext env_temporary ''tcp'' ''localhost:6606''
          [WithOnConnected (Some hook_fails)] trace0)) = []"
proof -
  have d: "DialContext env_temporary (dials trace0) (''tcp'', ''localhost:6606'') = Inr 1"
    by (simp add: ex_defs env_temporary_def hook_fails_def)
  have h: "OnConnected (newConn 1 [WithOnConnected (Some hook_fails)]) = Some hook_fails"
    by (simp add: newConn_def WithOnConnected_def)
  have e: "hook_fails (length (hook_calls trace0)) 1 = Some (PlainError 9)"
    by (simp add: hook_fails_def)
  from Dial_hook_failure_leaves_transport_open [OF d h e]
  show ?thesis by (simp add: trace0_def)
qed

end
